theory Spec2Isabelle
  imports
    Main
    "HOL-Library.Sublist"
    "HOL-Library.Char_ord"
    "HOL-Library.List_Lexorder"
    "HOL-Library.Word"
begin

section \<open>Go strings\<close>

text \<open>
  A Go string is a sequence of bytes; \<open>len\<close>, indexing and slicing count bytes, and
  string comparison is bytewise lexicographic. It is modelled as \<^typ>\<open>string\<close>
  (a list of 8-bit characters) with the order of \<open>List_Lexorder\<close> over \<open>Char_ord\<close>.
  \<open>strings.HasPrefix s p\<close> is \<^term>\<open>prefix p s\<close>, \<open>strings.HasSuffix s p\<close> is
  \<^term>\<open>suffix p s\<close>, \<open>strings.Contains s p\<close> is \<^term>\<open>sublist p s\<close>.
\<close>

text \<open>
  \<open>s[i]\<close> with an \<open>int\<close> index: Go panics with an index-out-of-range error unless
  \<open>0 \<le> i < len(s)\<close>. The panic is the value \<open>None\<close>.
\<close>

definition byte_at :: "string \<Rightarrow> int \<Rightarrow> char option" where
  "byte_at s i = (if 0 \<le> i \<and> i < int (length s) then Some (s ! nat i) else None)"

text \<open>
  \<open>strings.Split(s, sep)\<close> for a separator of one byte (the only use in the source is
  the separator \<open>":"\<close>): the pieces of \<open>s\<close> between the occurrences of the separator,
  so \<open>n\<close> occurrences give \<open>n + 1\<close> pieces and the empty string gives one empty piece.
\<close>

fun strings_Split :: "string \<Rightarrow> char \<Rightarrow> string list" where
  "strings_Split [] sep = [[]]"
| "strings_Split (x # xs) sep =
     (if x = sep then [] # strings_Split xs sep
      else (case strings_Split xs sep of
              [] \<Rightarrow> [[x]]
            | piece # pieces \<Rightarrow> (x # piece) # pieces))"

section \<open>Matchers (common/strmatcher/matchers.go)\<close>

text \<open>
  \<open>Matcher\<close> is an interface with the single method \<open>Match(string) bool\<close>. A value of
  the interface is modelled by its method; a call either returns a boolean or panics
  (\<open>None\<close>).
\<close>

type_synonym Matcher = "string \<Rightarrow> bool option"

definition fullMatcher_Match :: "string \<Rightarrow> Matcher" where
  "fullMatcher_Match m s = Some (m = s)"

definition substrMatcher_Match :: "string \<Rightarrow> Matcher" where
  "substrMatcher_Match m s = Some (sublist m s)"

definition domainMatcher_Match :: "string \<Rightarrow> Matcher" where
  "domainMatcher_Match m s =
     (let pattern = m in
      if \<not> suffix pattern s then Some False
      else if length s = length pattern then Some True
      else map_option (\<lambda>b. b = CHR ''.'')
             (byte_at s (int (length s) - int (length pattern) - 1)))"

text \<open>
  A \<open>regexMatcher\<close> holds a compiled regular expression; \<open>regexp.MatchString\<close> belongs
  to the Go library and is taken as the predicate the compiled expression denotes.
\<close>

definition regexMatcher_Match :: "(string \<Rightarrow> bool) \<Rightarrow> Matcher" where
  "regexMatcher_Match pattern s = Some (pattern s)"

definition notMatcher_Match :: "Matcher \<Rightarrow> Matcher" where
  "notMatcher_Match matcher s =
     (case matcher s of None \<Rightarrow> None | Some b \<Rightarrow> Some (\<not> b))"

text \<open>
  Go's \<open>&&\<close> evaluates its right operand only when the left one is true: \<open>matcherB\<close> is
  called only in the branch where \<open>matcherA\<close> returned true.
\<close>

definition andMatcher_Match :: "Matcher \<Rightarrow> Matcher \<Rightarrow> Matcher" where
  "andMatcher_Match matcherA matcherB s =
     (case matcherA s of
        None \<Rightarrow> None
      | Some a \<Rightarrow> if a then matcherB s else Some False)"

section \<open>Pattern compression (conf/dns.go)\<close>

text \<open>
  \<open>prefixMapper\<close> is a Go map, and \<open>compressPattern\<close> ranges over it. The order in
  which a Go \<open>range\<close> visits a map is not specified and differs between runs, so the
  loop is modelled over an arbitrary listing of the table's entries;
  \<open>compressPattern\<close> itself takes the entries in the order of the source text
  (\<open>compressPattern_range_order\<close> below shows that the order does not matter). The slice
  \<open>pattern[len(prefix):]\<close> follows the test of the prefix, so it is in range.
\<close>

definition prefixMapper :: "(string \<times> string) list" where
  "prefixMapper =
     [(''domain:'', ''d''),
      (''regexp:'', ''r''),
      (''keyword:'', ''k''),
      (''full:'', ''f''),
      (''geosite:'', ''egeosite.dat:''),
      (''ext:'', ''e''),
      (''geoip:'', ''i'')]"

fun compressPattern_range :: "(string \<times> string) list \<Rightarrow> string \<Rightarrow> string" where
  "compressPattern_range [] pattern = ''f'' @ pattern"
| "compressPattern_range ((prefix', cmd) # rest) pattern =
     (if prefix prefix' pattern then cmd @ drop (length prefix') pattern
      else compressPattern_range rest pattern)"

definition compressPattern :: "string \<Rightarrow> string" where
  "compressPattern pattern = compressPattern_range prefixMapper pattern"

section \<open>Data model\<close>

type_synonym byte = "8 word"

text \<open>
  A \<open>conf.Address\<close> wraps a \<open>net.Address\<close>: either an IP address (its raw bytes) or a
  domain name. \<open>Family().IsIP()\<close> tells the two apart; \<open>IP()\<close> and \<open>Domain()\<close> read the
  payload of the respective case.
\<close>

datatype Address = IPAddress "byte list" | DomainAddress string

text \<open>
  Errors are built by \<open>newError(values...)\<close> and may wrap an inner error with \<open>.Base(err)\<close>.
  The errors of the collaborators have the same type.
\<close>

datatype error = Error "string list" "error option"

definition newError :: "string list \<Rightarrow> error" where
  "newError values = Error values None"

fun Base :: "error \<Rightarrow> error \<Rightarrow> error" where
  "Base (Error values _) err = Error values (Some err)"

text \<open>The enumerations \<open>router.Domain_Type\<close> and \<open>dns.DomainMatchingType\<close>.\<close>

datatype Domain_Type = Domain_Plain | Domain_Regex | Domain_Domain | Domain_Full

datatype DomainMatchingType =
  DomainMatchingType_Full | DomainMatchingType_Subdomain
  | DomainMatchingType_Keyword | DomainMatchingType_Regex

record Domain =
  Type :: Domain_Type
  Value :: string

datatype Network = Network_TCP | Network_UDP

record Endpoint =
  Network :: Network
  ep_Address :: Address
  ep_Port :: "32 word"

record NameServer_PriorityDomain =
  pd_Type :: DomainMatchingType
  pd_Domain :: string

record 'g NameServer =
  ns_Address :: Endpoint
  PrioritizedDomain :: "NameServer_PriorityDomain list"
  Geoip :: 'g

record Config_HostMapping =
  hm_Type :: DomainMatchingType
  hm_Pattern :: string
  hm_Ip :: "byte list list"
  hm_ProxiedDomain :: string

record Config_Fake =
  dns_FakeNet :: string
  dns_FakeRules :: "string list"

text \<open>
  \<open>dns.Config\<close>, the result of the build. \<open>ExternalRules\<close> is a Go map from the
  argument string to a \<open>dns.ConfigPatterns\<close>, whose only field is the list \<open>Patterns\<close>;
  a nil map and a map without entries are both \<^term>\<open>Map.empty\<close>. A nil slice is the
  empty list, the nil \<open>Fake\<close> pointer is \<open>None\<close>.
\<close>

record 'g dns_Config =
  dns_Tag :: string
  dns_ClientIp :: "byte list"
  dns_NameServer :: "'g NameServer list"
  dns_HostRules :: "Config_HostMapping list"
  dns_StaticHosts :: "Config_HostMapping list"
  dns_ExternalRules :: "string \<rightharpoonup> string list"
  dns_Fake :: "Config_Fake option"

text \<open>The JSON-side configuration objects of package \<open>conf\<close>.\<close>

record NameServerConfig =
  Address :: "Address option"
  Port :: "16 word"
  Domains :: "string list"
  ExpectIPs :: "string list"

record FakeIPConfig =
  FakeRules :: "string list option"
  FakeNet :: string

text \<open>
  \<open>Hosts\<close> is a Go map from pattern to \<open>*Address\<close>. It is given as the list of its
  entries, with distinct keys, in the order in which the \<open>range\<close> loop of this run of
  \<open>Build\<close> visits them (Go does not specify that order). A value of the map is a
  pointer and may be nil (\<open>None\<close>; the JSON value \<open>null\<close> decodes to it). \<open>c.Hosts[k]\<close>
  is \<^term>\<open>map_of\<close> of the list, nil at a missing key, and a nil map is the empty list.
  \<open>Servers\<close> is a slice of pointers \<open>*NameServerConfig\<close>, each of which may be nil as
  well.
\<close>

record DnsConfig =
  Servers :: "NameServerConfig option list"
  Hosts :: "(string \<times> Address option) list"
  ClientIP :: "Address option"
  Tag :: string
  Fake :: "FakeIPConfig option"

text \<open>
  Functions the source calls and that are defined elsewhere: the list loader
  \<open>loadGeositeWithAttr\<close>, the rule parser \<open>parseDomainRule\<close>, the CIDR list builder
  \<open>toCidrList\<close> (its result type is the parameter \<open>'g\<close>) and Go's \<open>strings.ToUpper\<close>.
  They are parameters of the model.
\<close>

record 'g collaborators =
  loadGeositeWithAttr :: "string \<Rightarrow> string \<Rightarrow> error + Domain list"
  parseDomainRule :: "string \<Rightarrow> error + Domain list"
  toCidrList :: "string list \<Rightarrow> error + 'g"
  strings_ToUpper :: "string \<Rightarrow> string"

section \<open>Name servers\<close>

fun toDomainMatchingType :: "Domain_Type \<Rightarrow> DomainMatchingType" where
  "toDomainMatchingType Domain_Domain = DomainMatchingType_Subdomain"
| "toDomainMatchingType Domain_Full = DomainMatchingType_Full"
| "toDomainMatchingType Domain_Plain = DomainMatchingType_Keyword"
| "toDomainMatchingType Domain_Regex = DomainMatchingType_Regex"

fun NameServerConfig_Build_domains ::
  "'g collaborators \<Rightarrow> string list \<Rightarrow> NameServer_PriorityDomain list \<Rightarrow>
   error + NameServer_PriorityDomain list" where
  "NameServerConfig_Build_domains env [] domains = Inr domains"
| "NameServerConfig_Build_domains env (d # ds) domains =
     (case parseDomainRule env d of
        Inl err \<Rightarrow> Inl (Base (newError [''invalid domain rule: '', d]) err)
      | Inr parsedDomain \<Rightarrow>
          NameServerConfig_Build_domains env ds
            (domains @ map (\<lambda>pd. \<lparr>pd_Type = toDomainMatchingType (Type pd),
                                   pd_Domain = Value pd\<rparr>) parsedDomain))"

text \<open>
  \<open>Build\<close> is a method of \<open>*NameServerConfig\<close>: on a nil receiver the first field
  access \<open>c.Address\<close> panics (\<open>None\<close>).
\<close>

definition NameServerConfig_Build ::
  "'g collaborators \<Rightarrow> NameServerConfig option \<Rightarrow> (error + 'g NameServer) option" where
  "NameServerConfig_Build env receiver =
     (case receiver of
        None \<Rightarrow> None
      | Some c \<Rightarrow>
          Some
            (case Address c of
               None \<Rightarrow> Inl (newError [''NameServer address is not specified.''])
             | Some address \<Rightarrow>
                 (case NameServerConfig_Build_domains env (Domains c) [] of
                    Inl err \<Rightarrow> Inl err
                  | Inr domains \<Rightarrow>
                      (case toCidrList env (ExpectIPs c) of
                         Inl err \<Rightarrow>
                           Inl (Base (newError (''invalid ip rule: '' # ExpectIPs c)) err)
                       | Inr geoipList \<Rightarrow>
                           Inr \<lparr>ns_Address = \<lparr>Network = Network_UDP, ep_Address = address,
                                               ep_Port = ucast (Port c)\<rparr>,
                                PrioritizedDomain = domains,
                                Geoip = geoipList\<rparr>))))"

section \<open>Host patterns and external rules\<close>

fun typeMap :: "Domain_Type \<Rightarrow> DomainMatchingType" where
  "typeMap Domain_Full = DomainMatchingType_Full"
| "typeMap Domain_Domain = DomainMatchingType_Subdomain"
| "typeMap Domain_Plain = DomainMatchingType_Keyword"
| "typeMap Domain_Regex = DomainMatchingType_Regex"

fun typeMapper :: "Domain_Type \<Rightarrow> string" where
  "typeMapper Domain_Full = ''f''"
| "typeMapper Domain_Domain = ''d''"
| "typeMapper Domain_Plain = ''k''"
| "typeMapper Domain_Regex = ''r''"

text \<open>
  \<open>new(dns.Config_HostMapping)\<close>: every field has its zero value (the enumeration value
  0 is \<open>Full\<close>).
\<close>

definition new_Config_HostMapping :: Config_HostMapping where
  "new_Config_HostMapping =
     \<lparr>hm_Type = DomainMatchingType_Full, hm_Pattern = [], hm_Ip = [], hm_ProxiedDomain = []\<rparr>"

text \<open>
  \<open>getHostMapping\<close> takes a pointer, which is nil (\<open>None\<close>) when the \<open>Hosts\<close> map
  holds nil at the key or has no such key; the method call on the nil pointer panics.
\<close>

fun getHostMapping :: "Address option \<Rightarrow> Config_HostMapping option" where
  "getHostMapping None = None"
| "getHostMapping (Some (IPAddress ip)) = Some (new_Config_HostMapping\<lparr>hm_Ip := [ip]\<rparr>)"
| "getHostMapping (Some (DomainAddress domain)) =
     Some (new_Config_HostMapping\<lparr>hm_ProxiedDomain := domain\<rparr>)"

text \<open>
  The loop of \<open>loadExternalRules\<close> that fills \<open>externRules.Patterns\<close>, a slice made with
  the length of \<open>domains\<close>, by index; a write out of range would panic.
\<close>

fun loadExternalRules_fill :: "Domain list \<Rightarrow> string list \<Rightarrow> nat \<Rightarrow> string list option" where
  "loadExternalRules_fill [] patterns index = Some patterns"
| "loadExternalRules_fill (d # ds) patterns index =
     (if index < length patterns
      then loadExternalRules_fill ds (patterns[index := typeMapper (Type d) @ Value d]) (index + 1)
      else None)"

text \<open>
  \<open>loadExternalRules\<close> mutates the configuration it is given by pointer; the model
  returns it together with the error (\<open>None\<close> for nil). The outer \<open>None\<close> is a panic:
  \<open>pattern[0]\<close> on the empty string.
\<close>

definition loadExternalRules ::
  "'g collaborators \<Rightarrow> string \<Rightarrow> 'g dns_Config \<Rightarrow> ('g dns_Config \<times> error option) option" where
  "loadExternalRules env pattern c =
     (case pattern of
        [] \<Rightarrow> None
      | cmd # arg \<Rightarrow>
          if cmd \<noteq> CHR ''e'' then Some (c, None)
          else (case strings_Split arg CHR '':'' of
                  [filename, country] \<Rightarrow>
                    (case loadGeositeWithAttr env filename country of
                       Inl err \<Rightarrow>
                         Some (c, Some (Base (newError [''invalid external settings from '',
                                                filename, '': '', arg]) err))
                     | Inr domains \<Rightarrow>
                         (case loadExternalRules_fill domains (replicate (length domains) []) 0 of
                            None \<Rightarrow> None
                          | Some externRules \<Rightarrow>
                              Some (c\<lparr>dns_ExternalRules := (dns_ExternalRules c)(arg \<mapsto> externRules)\<rparr>,
                                    None)))
                | _ \<Rightarrow> Some (c, Some (newError [''invalid external resource: '', arg]))))"

text \<open>
  \<open>getHostPattern\<close> takes the pointer \<open>addr\<close> as it is in the \<open>Hosts\<close> map; on the
  nil pointer the call \<open>addr.Family()\<close> panics (\<open>None\<close>), before anything is written
  to the configuration.
\<close>

definition getHostPattern ::
  "'g collaborators \<Rightarrow> Address option \<Rightarrow> string \<Rightarrow> 'g dns_Config \<Rightarrow>
   'g dns_Config option" where
  "getHostPattern env addr pattern c =
     (case addr of
        None \<Rightarrow> None
      | Some address \<Rightarrow>
          (let item = (case address of
                         IPAddress ip \<Rightarrow> new_Config_HostMapping\<lparr>hm_Ip := [ip]\<rparr>
                       | DomainAddress domain \<Rightarrow>
                           new_Config_HostMapping\<lparr>hm_ProxiedDomain := domain\<rparr>);
               item = item\<lparr>hm_Pattern := compressPattern pattern\<rparr>
           in case loadExternalRules env (hm_Pattern item) c of
                None \<Rightarrow> None
              | Some (c', err) \<Rightarrow>
                  if err = None then Some (c'\<lparr>dns_HostRules := dns_HostRules c' @ [item]\<rparr>)
                  else Some c'))"

section \<open>The build of the DNS configuration\<close>

text \<open>
  The loop over \<open>c.Servers\<close>; the first server that fails to build ends the build, and
  a nil element makes \<open>server.Build()\<close> panic.
\<close>

fun Build_servers ::
  "'g collaborators \<Rightarrow> NameServerConfig option list \<Rightarrow> 'g dns_Config \<Rightarrow>
   (error + 'g dns_Config) option" where
  "Build_servers env [] config = Some (Inr config)"
| "Build_servers env (server # servers) config =
     (case NameServerConfig_Build env server of
        None \<Rightarrow> None
      | Some (Inl err) \<Rightarrow> Some (Inl (Base (newError [''failed to build name server'']) err))
      | Some (Inr ns) \<Rightarrow>
          Build_servers env servers (config\<lparr>dns_NameServer := dns_NameServer config @ [ns]\<rparr>))"

text \<open>
  The first loop over \<open>c.Hosts\<close>, in the order of the map's iteration: it collects the keys
  in \<open>domains\<close> and calls \<open>getHostPattern\<close> on every entry.
\<close>

fun Build_range_hosts ::
  "'g collaborators \<Rightarrow> (string \<times> Address option) list \<Rightarrow> string list \<Rightarrow> 'g dns_Config \<Rightarrow>
   (string list \<times> 'g dns_Config) option" where
  "Build_range_hosts env [] domains config = Some (domains, config)"
| "Build_range_hosts env ((pattern, address) # hosts) domains config =
     (case getHostPattern env address pattern config of
        None \<Rightarrow> None
      | Some config' \<Rightarrow> Build_range_hosts env hosts (domains @ [pattern]) config')"

text \<open>
  The inner loops \<open>for _, d := range domains\<close> of the \<open>geosite:\<close> and \<open>ext:\<close> branches,
  appending one mapping for every entry of the loaded list.
\<close>

fun Build_list_mappings ::
  "Address option \<Rightarrow> Domain list \<Rightarrow> Config_HostMapping list \<Rightarrow> Config_HostMapping list option" where
  "Build_list_mappings addr [] mappings = Some mappings"
| "Build_list_mappings addr (d # ds) mappings =
     (case getHostMapping addr of
        None \<Rightarrow> None
      | Some mapping \<Rightarrow>
          Build_list_mappings addr ds
            (mappings @ [mapping\<lparr>hm_Type := typeMap (Type d), hm_Pattern := Value d\<rparr>]))"

text \<open>
  The body of the second loop for one key \<open>domain\<close> with \<open>addr = c.Hosts[domain]\<close>: the
  chain of prefix tests that builds \<open>mappings\<close>, or returns an error (\<open>Inl\<close>). Every
  slice \<open>domain[n:]\<close> follows the test of a prefix of \<open>n\<close> bytes, so it is in range.
\<close>

definition Build_mappings ::
  "'g collaborators \<Rightarrow> string \<Rightarrow> Address option \<Rightarrow> (error + Config_HostMapping list) option" where
  "Build_mappings env domain addr =
     (if prefix ''domain:'' domain then
        (case getHostMapping addr of
           None \<Rightarrow> None
         | Some mapping \<Rightarrow>
             Some (Inr [mapping\<lparr>hm_Type := DomainMatchingType_Subdomain,
                                hm_Pattern := drop 7 domain\<rparr>]))
      else if prefix ''geosite:'' domain then
        (case loadGeositeWithAttr env ''geosite.dat'' (strings_ToUpper env (drop 8 domain)) of
           Inl err \<Rightarrow> Some (Inl (Base (newError [''invalid geosite settings: '', domain]) err))
         | Inr domains \<Rightarrow> map_option Inr (Build_list_mappings addr domains []))
      else if prefix ''regexp:'' domain then
        (case getHostMapping addr of
           None \<Rightarrow> None
         | Some mapping \<Rightarrow>
             Some (Inr [mapping\<lparr>hm_Type := DomainMatchingType_Regex,
                                hm_Pattern := drop 7 domain\<rparr>]))
      else if prefix ''keyword:'' domain then
        (case getHostMapping addr of
           None \<Rightarrow> None
         | Some mapping \<Rightarrow>
             Some (Inr [mapping\<lparr>hm_Type := DomainMatchingType_Keyword,
                                hm_Pattern := drop 8 domain\<rparr>]))
      else if prefix ''full:'' domain then
        (case getHostMapping addr of
           None \<Rightarrow> None
         | Some mapping \<Rightarrow>
             Some (Inr [mapping\<lparr>hm_Type := DomainMatchingType_Full,
                                hm_Pattern := drop 5 domain\<rparr>]))
      else if prefix ''ext:'' domain then
        (case strings_Split (drop 4 domain) CHR '':'' of
           [filename, country] \<Rightarrow>
             (case loadGeositeWithAttr env filename country of
                Inl err \<Rightarrow>
                  Some (Inl (Base (newError [''failed to load domains: '', country,
                                     '' from '', filename]) err))
              | Inr domains \<Rightarrow> map_option Inr (Build_list_mappings addr domains []))
         | _ \<Rightarrow> Some (Inl (newError [''invalid external resource: '', domain])))
      else
        (case getHostMapping addr of
           None \<Rightarrow> None
         | Some mapping \<Rightarrow>
             Some (Inr [mapping\<lparr>hm_Type := DomainMatchingType_Full, hm_Pattern := domain\<rparr>])))"

text \<open>
  The second loop, over the sorted keys. \<open>addr := c.Hosts[domain]\<close> is the pointer stored
  at the key, and nil when the key is missing.
\<close>

fun Build_static_hosts ::
  "'g collaborators \<Rightarrow> (string \<times> Address option) list \<Rightarrow> string list \<Rightarrow> 'g dns_Config \<Rightarrow>
   (error + 'g dns_Config) option" where
  "Build_static_hosts env hosts [] config = Some (Inr config)"
| "Build_static_hosts env hosts (domain # domains) config =
     (case Build_mappings env domain
             (case map_of hosts domain of None \<Rightarrow> None | Some addr \<Rightarrow> addr) of
        None \<Rightarrow> None
      | Some (Inl err) \<Rightarrow> Some (Inl err)
      | Some (Inr mappings) \<Rightarrow>
          Build_static_hosts env hosts domains
            (config\<lparr>dns_StaticHosts := dns_StaticHosts config @ mappings\<rparr>))"

text \<open>
  The loop over \<open>c.Fake.FakeRules\<close>: a pattern whose external rules load without error
  is written to \<open>fakeRules[i]\<close> (a write out of range would panic) and \<open>i\<close> advances.
\<close>

fun Build_range_fake_rules ::
  "'g collaborators \<Rightarrow> string list \<Rightarrow> string list \<Rightarrow> nat \<Rightarrow> 'g dns_Config \<Rightarrow>
   (string list \<times> nat \<times> 'g dns_Config) option" where
  "Build_range_fake_rules env [] fakeRules i config = Some (fakeRules, i, config)"
| "Build_range_fake_rules env (pattern # patterns) fakeRules i config =
     (let newPattern = compressPattern pattern in
      case loadExternalRules env newPattern config of
        None \<Rightarrow> None
      | Some (config', err) \<Rightarrow>
          if err = None then
            (if i < length fakeRules
             then Build_range_fake_rules env patterns (fakeRules[i := newPattern]) (i + 1) config'
             else None)
          else Build_range_fake_rules env patterns fakeRules i config')"

text \<open>
  \<open>Build\<close> is the sequence of four blocks: the client IP, the name servers, the hosts and
  the fake settings. The result is the pair Go returns (configuration pointer and error,
  \<open>None\<close> for nil); the outer \<open>None\<close> is a panic.
\<close>

definition Build_client_ip :: "DnsConfig \<Rightarrow> 'g dns_Config \<Rightarrow> error + 'g dns_Config" where
  "Build_client_ip c config =
     (case ClientIP c of
        None \<Rightarrow> Inr config
      | Some (DomainAddress domain) \<Rightarrow> Inl (newError [''not an IP address:'', domain])
      | Some (IPAddress ip) \<Rightarrow> Inr (config\<lparr>dns_ClientIp := ip\<rparr>))"

definition Build_hosts ::
  "'g collaborators \<Rightarrow> DnsConfig \<Rightarrow> 'g dns_Config \<Rightarrow> (error + 'g dns_Config) option" where
  "Build_hosts env c config =
     (if Hosts c \<noteq> [] then
        (case Build_range_hosts env (Hosts c) [] config of
           None \<Rightarrow> None
         | Some (domains, config') \<Rightarrow> Build_static_hosts env (Hosts c) (sort domains) config')
      else Some (Inr config))"

definition Build_fake ::
  "'g collaborators \<Rightarrow> DnsConfig \<Rightarrow> 'g dns_Config \<Rightarrow> 'g dns_Config option" where
  "Build_fake env c config =
     (case Fake c of
        None \<Rightarrow> Some config
      | Some fake \<Rightarrow>
          (let config = config\<lparr>dns_Fake := Some \<lparr>dns_FakeNet =
                                   (if FakeNet fake = [] then ''224.0.0.0/8'' else FakeNet fake),
                                 dns_FakeRules = []\<rparr>\<rparr>
           in case FakeRules fake of
                None \<Rightarrow> Some config
              | Some rules \<Rightarrow>
                  (case Build_range_fake_rules env rules (replicate (length rules) []) 0 config of
                     None \<Rightarrow> None
                   | Some (fakeRules, i, config') \<Rightarrow>
                       (case dns_Fake config' of
                          None \<Rightarrow> None
                        | Some fk \<Rightarrow>
                            if i \<le> length fakeRules
                            then Some (config'\<lparr>dns_Fake :=
                                         Some (fk\<lparr>dns_FakeRules := take i fakeRules\<rparr>)\<rparr>)
                            else None))))"

definition Build ::
  "'g collaborators \<Rightarrow> DnsConfig \<Rightarrow> ('g dns_Config option \<times> error option) option" where
  "Build env c =
     (let config = \<lparr>dns_Tag = Tag c, dns_ClientIp = [], dns_NameServer = [],
                    dns_HostRules = [], dns_StaticHosts = [],
                    dns_ExternalRules = Map.empty, dns_Fake = None\<rparr>
      in case Build_client_ip c config of
           Inl err \<Rightarrow> Some (None, Some err)
         | Inr config \<Rightarrow>
             (case Build_servers env (Servers c) config of
                None \<Rightarrow> None
              | Some (Inl err) \<Rightarrow> Some (None, Some err)
              | Some (Inr config) \<Rightarrow>
                  (case Build_hosts env c config of
                     None \<Rightarrow> None
                   | Some (Inl err) \<Rightarrow> Some (None, Some err)
                   | Some (Inr config) \<Rightarrow>
                       (case Build_fake env c config of
                          None \<Rightarrow> None
                        | Some config \<Rightarrow> Some (Some config, None)))))"

section \<open>Example collaborators\<close>

text \<open>
  A concrete instance of the collaborators, used to evaluate the model on examples: a
  list loader that knows the single list \<open>geosite.dat\<close> with the single tag \<open>CN\<close>.
\<close>

definition example_collaborators :: "unit collaborators" where
  "example_collaborators =
     \<lparr>loadGeositeWithAttr = (\<lambda>filename country.
          if filename = ''geosite.dat'' \<and> country = ''CN''
          then Inr [\<lparr>Type = Domain_Domain, Value = ''cn''\<rparr>, \<lparr>Type = Domain_Full, Value = ''qq.com''\<rparr>]
          else Inl (newError [''list not found''])),
      parseDomainRule = (\<lambda>d. Inr [\<lparr>Type = Domain_Full, Value = d\<rparr>]),
      toCidrList = (\<lambda>ips. Inr ()),
      strings_ToUpper = (\<lambda>s. if s = ''cn'' then ''CN'' else s)\<rparr>"


definition example_malformed :: DnsConfig where
  "example_malformed =
     \<lparr>Servers = [],
      Hosts = [(''b.com'', Some (IPAddress [10, 0, 0, 2])),
               (''ext:onlyonepart'', Some (IPAddress [10, 0, 0, 3]))],
      ClientIP = None,
      Tag = ''dns'',
      Fake = None\<rparr>"

definition example_fake :: DnsConfig where
  "example_fake =
     \<lparr>Servers = [],
      Hosts = [],
      ClientIP = None,
      Tag = ''dns'',
      Fake = Some \<lparr>FakeRules = Some [''geosite:XX'', ''geosite:CN''], FakeNet = []\<rparr>\<rparr>"

text \<open>
  A \<open>Hosts\<close> map with a nil address next to a malformed \<open>ext:\<close> key, and one whose
  \<open>geosite:\<close> key spells the tag in lower case.
\<close>

definition example_nil_address :: DnsConfig where
  "example_nil_address =
     \<lparr>Servers = [],
      Hosts = [(''b.com'', None), (''ext:onlyonepart'', Some (IPAddress [10, 0, 0, 3]))],
      ClientIP = None,
      Tag = ''dns'',
      Fake = None\<rparr>"

definition example_geosite_lower :: DnsConfig where
  "example_geosite_lower =
     \<lparr>Servers = [],
      Hosts = [(''geosite:cn'', Some (IPAddress [10, 0, 0, 1]))],
      ClientIP = None,
      Tag = ''dns'',
      Fake = None\<rparr>"

definition example_order_ab :: DnsConfig where
  "example_order_ab =
     \<lparr>Servers = [],
      Hosts = [(''a.com'', Some (IPAddress [10, 0, 0, 1])), (''b.com'', Some (IPAddress [10, 0, 0, 2]))],
      ClientIP = None,
      Tag = ''dns'',
      Fake = None\<rparr>"

definition example_order_ba :: DnsConfig where
  "example_order_ba =
     \<lparr>Servers = [],
      Hosts = [(''b.com'', Some (IPAddress [10, 0, 0, 2])), (''a.com'', Some (IPAddress [10, 0, 0, 1]))],
      ClientIP = None,
      Tag = ''dns'',
      Fake = None\<rparr>"

definition example_external :: DnsConfig where
  "example_external =
     \<lparr>Servers = [],
      Hosts = [(''geosite:CN'', Some (IPAddress [10, 0, 0, 1]))],
      ClientIP = None,
      Tag = ''dns'',
      Fake = None\<rparr>"

section \<open>Invariant of the external-rule index\<close>

text \<open>
  A specification predicate, not part of the code: every entry of the index is stored
  under an argument string \<open>filename:country\<close> and holds the compressed form of what the
  loader returns for that file and tag, in the loader's order.
\<close>

definition ExternalRules_sound :: "'g collaborators \<Rightarrow> (string \<rightharpoonup> string list) \<Rightarrow> bool" where
  "ExternalRules_sound env rules \<longleftrightarrow>
     (\<forall>arg patterns. rules arg = Some patterns \<longrightarrow>
        (\<exists>filename country domains.
           strings_Split arg CHR '':'' = [filename, country] \<and>
           loadGeositeWithAttr env filename country = Inr domains \<and>
           patterns = map (\<lambda>d. typeMapper (Type d) @ Value d) domains))"

section \<open>Properties of the matchers\<close>

lemma suffix_dot_iff:
  "suffix (CHR ''.'' # p) d \<longleftrightarrow>
     suffix p d \<and> length p < length d \<and> d ! (length d - length p - 1) = CHR ''.''"
proof
  assume "suffix (CHR ''.'' # p) d"
  then obtain zs where d: "d = zs @ CHR ''.'' # p"
    by (auto simp: suffix_def)
  have "suffix p d"
    unfolding d suffix_def by (rule exI [of _ "zs @ [CHR ''.'']"]) simp
  moreover have "d ! (length d - length p - 1) = CHR ''.''"
    unfolding d by (simp add: nth_append)
  ultimately show "suffix p d \<and> length p < length d \<and> d ! (length d - length p - 1) = CHR ''.''"
    unfolding d by simp
next
  assume a: "suffix p d \<and> length p < length d \<and> d ! (length d - length p - 1) = CHR ''.''"
  then obtain zs where d: "d = zs @ p"
    by (auto simp: suffix_def)
  from a d have "zs \<noteq> []" by auto
  then obtain ys z where zs: "zs = ys @ [z]"
    by (metis rev_exhaust)
  from a have "z = CHR ''.''"
    unfolding d zs by (simp add: nth_append)
  then show "suffix (CHR ''.'' # p) d"
    unfolding d zs suffix_def by (intro exI [of _ ys]) simp
qed

text \<open>
  Claim C2. For every subdomain pattern \<open>p\<close> and every candidate \<open>d\<close>, the call
  \<open>domainMatcher(p).Match(d)\<close> returns (it never reads out of range), and it returns true
  exactly when \<open>d = p\<close> or \<open>d\<close> ends with \<open>"." + p\<close>.
\<close>

theorem domainMatcher_Match_iff:
  "domainMatcher_Match p d = Some (d = p \<or> suffix (CHR ''.'' # p) d)"
proof (cases "suffix p d")
  case False
  then have "d \<noteq> p" by auto
  moreover from False have "\<not> suffix (CHR ''.'' # p) d"
    by (simp add: suffix_dot_iff)
  ultimately show ?thesis
    using False by (simp add: domainMatcher_Match_def)
next
  case True
  then have le: "length p \<le> length d"
    by (rule suffix_length_le)
  show ?thesis
  proof (cases "length d = length p")
    case eq: True
    with True have "d = p"
      by (auto simp: suffix_def)
    with True eq show ?thesis
      by (simp add: domainMatcher_Match_def)
  next
    case neq: False
    with le have lt: "length p < length d" by simp
    then have idx: "nat (int (length d) - int (length p) - 1) = length d - length p - 1"
      by simp
    from neq have "d \<noteq> p" by auto
    with True neq lt show ?thesis
      by (simp add: domainMatcher_Match_def byte_at_def idx suffix_dot_iff)
  qed
qed

theorem domainMatcher_Match_iff_witness:
  "domainMatcher_Match ''example.com'' ''example.com'' = Some True \<and>
   domainMatcher_Match ''example.com'' ''a.example.com'' = Some True \<and>
   domainMatcher_Match ''example.com'' ''xexample.com'' = Some False"
  using domainMatcher_Match_iff [of "''example.com''" "''example.com''"]
    domainMatcher_Match_iff [of "''example.com''" "''a.example.com''"]
    domainMatcher_Match_iff [of "''example.com''" "''xexample.com''"]
  by (simp add: suffix_to_prefix)

text \<open>
  Claim C8. For matchers \<open>a\<close>, \<open>b\<close> and a string \<open>s\<close>: when both return,
  \<open>And(a, b).Match(s)\<close> is the conjunction of their results; when \<open>a\<close> returns false the
  result is false whatever a call of \<open>b\<close> would do (even panic), so \<open>b\<close> is not evaluated;
  \<open>Not(m).Match(s)\<close> is the negation of \<open>m.Match(s)\<close>; and
  \<open>Full("xy") AND NOT Substring("z")\<close> matches \<open>"xy"\<close>.
\<close>

theorem andMatcher_notMatcher_Match:
  "(a s = Some x \<and> b s = Some y \<longrightarrow> andMatcher_Match a b s = Some (x \<and> y)) \<and>
   (a s = Some False \<longrightarrow> andMatcher_Match a b s = Some False) \<and>
   (m s = Some x \<longrightarrow> notMatcher_Match m s = Some (\<not> x)) \<and>
   andMatcher_Match (fullMatcher_Match ''xy'')
     (notMatcher_Match (substrMatcher_Match ''z'')) ''xy'' = Some True"
  by (simp add: andMatcher_Match_def notMatcher_Match_def fullMatcher_Match_def
      substrMatcher_Match_def sublist_code)

theorem andMatcher_notMatcher_Match_witness:
  "andMatcher_Match (fullMatcher_Match ''xy'') (substrMatcher_Match ''y'') ''xy'' = Some True \<and>
   andMatcher_Match (fullMatcher_Match ''q'') (\<lambda>s. None) ''xy'' = Some False \<and>
   notMatcher_Match (substrMatcher_Match ''z'') ''xy'' = Some True"
  using andMatcher_notMatcher_Match
    [of "fullMatcher_Match ''xy''" "''xy''" True "substrMatcher_Match ''y''" True
      "substrMatcher_Match ''z''"]
    andMatcher_notMatcher_Match
    [of "fullMatcher_Match ''q''" "''xy''" False "\<lambda>s. None" True
      "substrMatcher_Match ''z''"]
  by (simp add: fullMatcher_Match_def substrMatcher_Match_def sublist_code)

section \<open>Properties of the pattern compressor\<close>

text \<open>
  The keys of \<open>prefixMapper\<close> differ within their first four bytes, so at most one of
  them is a prefix of a given pattern, and the result of the loop does not depend on the
  order in which the table is visited.
\<close>

lemma prefix_take_eq: "prefix pre p \<Longrightarrow> n \<le> length pre \<Longrightarrow> take n p = take n pre"
  by (auto simp: prefix_def)

lemma prefixMapper_unique:
  assumes "e1 \<in> set prefixMapper" "e2 \<in> set prefixMapper"
    and "prefix (fst e1) p" "prefix (fst e2) p"
  shows "e1 = e2"
proof -
  have len: "\<And>e. e \<in> set prefixMapper \<Longrightarrow> 4 \<le> length (fst e)"
    by (auto simp: prefixMapper_def)
  have "take 4 (fst e1) = take 4 p"
    using prefix_take_eq [OF assms(3) len [OF assms(1)]] by simp
  moreover have "take 4 (fst e2) = take 4 p"
    using prefix_take_eq [OF assms(4) len [OF assms(2)]] by simp
  ultimately have eq: "take 4 (fst e1) = take 4 (fst e2)" by simp
  have "distinct (map (\<lambda>e. take 4 (fst e)) prefixMapper)"
    by (simp add: prefixMapper_def)
  then have "inj_on (\<lambda>e. take 4 (fst e)) (set prefixMapper)"
    by (simp add: distinct_map)
  from inj_onD [OF this eq assms(1,2)] show ?thesis .
qed

lemma compressPattern_range_hit:
  "(pre, cmd) \<in> set ord \<Longrightarrow> prefix pre p \<Longrightarrow>
   \<forall>e \<in> set ord. prefix (fst e) p \<longrightarrow> e = (pre, cmd) \<Longrightarrow>
   compressPattern_range ord p = cmd @ drop (length pre) p"
proof (induction ord)
  case Nil
  then show ?case by simp
next
  case (Cons e ord)
  obtain pre' cmd' where e: "e = (pre', cmd')" by (cases e)
  show ?case
  proof (cases "prefix pre' p")
    case True
    with Cons.prems(3) e have "(pre', cmd') = (pre, cmd)" by auto
    with True e show ?thesis by simp
  next
    case False
    with Cons.prems(1,2) e have m: "(pre, cmd) \<in> set ord" by auto
    from Cons.prems(3) have u: "\<forall>e \<in> set ord. prefix (fst e) p \<longrightarrow> e = (pre, cmd)"
      by simp
    from m Cons.prems(2) u have "compressPattern_range ord p = cmd @ drop (length pre) p"
      by (rule Cons.IH)
    with False e show ?thesis by simp
  qed
qed

lemma compressPattern_range_miss:
  "\<forall>e \<in> set ord. \<not> prefix (fst e) p \<Longrightarrow> compressPattern_range ord p = ''f'' @ p"
  by (induction ord) auto

lemma compressPattern_range_table:
  assumes "set ord = set prefixMapper" and "(pre, cmd) \<in> set prefixMapper" and "prefix pre p"
  shows "compressPattern_range ord p = cmd @ drop (length pre) p"
proof (rule compressPattern_range_hit)
  show "(pre, cmd) \<in> set ord" using assms(1,2) by simp
  show "prefix pre p" by (rule assms(3))
  show "\<forall>e \<in> set ord. prefix (fst e) p \<longrightarrow> e = (pre, cmd)"
  proof (intro ballI impI)
    fix e assume "e \<in> set ord" and pe: "prefix (fst e) p"
    then have "e \<in> set prefixMapper" using assms(1) by simp
    then show "e = (pre, cmd)"
      using assms(2) pe
    proof (rule prefixMapper_unique)
      show "prefix (fst (pre, cmd)) p" using assms(3) by simp
    qed
  qed
qed

lemma compressPattern_range_order:
  assumes "set ord = set prefixMapper"
  shows "compressPattern_range ord p = compressPattern p"
proof (cases "\<exists>e \<in> set prefixMapper. prefix (fst e) p")
  case True
  then obtain pre cmd where e: "(pre, cmd) \<in> set prefixMapper" "prefix pre p"
    by auto
  have "compressPattern_range ord p = cmd @ drop (length pre) p"
    using assms e by (rule compressPattern_range_table)
  moreover have "compressPattern_range prefixMapper p = cmd @ drop (length pre) p"
    using refl e by (rule compressPattern_range_table)
  ultimately show ?thesis by (simp only: compressPattern_def)
next
  case False
  then have m: "\<forall>e \<in> set prefixMapper. \<not> prefix (fst e) p"
    by simp
  have "compressPattern_range prefixMapper p = ''f'' @ p"
    using m by (rule compressPattern_range_miss)
  moreover have "compressPattern_range ord p = ''f'' @ p"
    using m assms by (intro compressPattern_range_miss) simp
  ultimately show ?thesis by (simp only: compressPattern_def)
qed

lemma compressPattern_prefixed:
  assumes "(pre, cmd) \<in> set prefixMapper"
  shows "compressPattern (pre @ v) = cmd @ v"
proof -
  have "prefix pre (pre @ v)" by simp
  with refl assms have "compressPattern_range prefixMapper (pre @ v) = cmd @ drop (length pre) (pre @ v)"
    by (rule compressPattern_range_table)
  then show ?thesis by (simp add: compressPattern_def)
qed

lemma compressPattern_range_head:
  "\<forall>e \<in> set ord. snd e \<noteq> [] \<and> hd (snd e) \<in> S \<Longrightarrow> CHR ''f'' \<in> S \<Longrightarrow>
   compressPattern_range ord p \<noteq> [] \<and> hd (compressPattern_range ord p) \<in> S"
  by (induction ord) (auto split: if_splits)

lemma compressPattern_head:
  "compressPattern p \<noteq> [] \<and>
   hd (compressPattern p) \<in> {CHR ''d'', CHR ''f'', CHR ''k'', CHR ''r'', CHR ''i'', CHR ''e''}"
  unfolding compressPattern_def
  by (rule compressPattern_range_head) (simp_all add: prefixMapper_def)

lemma loadExternalRules_fill_eq:
  "loadExternalRules_fill ds (pre @ replicate (length ds) []) (length pre) =
     Some (pre @ map (\<lambda>d. typeMapper (Type d) @ Value d) ds)"
proof (induction ds arbitrary: pre)
  case Nil
  then show ?case by simp
next
  case (Cons d ds)
  have "(pre @ replicate (length (d # ds)) [])[length pre := typeMapper (Type d) @ Value d] =
        (pre @ [typeMapper (Type d) @ Value d]) @ replicate (length ds) []"
    by (simp add: list_update_append)
  with Cons.IH [of "pre @ [typeMapper (Type d) @ Value d]"] show ?case
    by simp
qed

lemma loadExternalRules_fill_all:
  "loadExternalRules_fill ds (replicate (length ds) []) 0 =
     Some (map (\<lambda>d. typeMapper (Type d) @ Value d) ds)"
  using loadExternalRules_fill_eq [of ds "[]"] by simp


text \<open>
  What the compressor computes. For every order in which the table is visited, it
  returns the same result, maps each recognized prefix to its code and copies the rest
  of the pattern: \<open>"domain:example.com"\<close> gives \<open>"dexample.com"\<close>, \<open>"geosite:cn"\<close> gives
  \<open>"egeosite.dat:cn"\<close>, and a pattern without a recognized prefix, such as
  \<open>"nodialect.com"\<close>, gets the code \<open>f\<close>.
\<close>

lemma compressPattern_table:
  assumes "set ord = set prefixMapper"
  shows "compressPattern_range ord ''domain:example.com'' = ''dexample.com'' \<and>
    compressPattern_range ord ''geosite:cn'' = ''egeosite.dat:cn'' \<and>
    compressPattern_range ord ''nodialect.com'' = ''fnodialect.com'' \<and>
    (\<forall>pre cmd v. (pre, cmd) \<in> set prefixMapper \<longrightarrow> compressPattern_range ord (pre @ v) = cmd @ v) \<and>
    ((\<forall>e \<in> set prefixMapper. \<not> prefix (fst e) p) \<longrightarrow> compressPattern_range ord p = ''f'' @ p) \<and>
    compressPattern_range ord p = compressPattern_range prefixMapper p"
proof -
  have ex: "compressPattern ''domain:example.com'' = ''dexample.com''"
    "compressPattern ''geosite:cn'' = ''egeosite.dat:cn''"
    "compressPattern ''nodialect.com'' = ''fnodialect.com''"
    by (simp_all add: compressPattern_def prefixMapper_def)
  have "\<forall>e \<in> set ord. \<not> prefix (fst e) p \<Longrightarrow> compressPattern_range ord p = ''f'' @ p"
    by (rule compressPattern_range_miss)
  with assms have "(\<forall>e \<in> set prefixMapper. \<not> prefix (fst e) p) \<longrightarrow> compressPattern_range ord p = ''f'' @ p"
    by simp
  moreover have "compressPattern_range ord p = compressPattern_range prefixMapper p"
    using compressPattern_range_order [OF assms, of p] by (simp only: compressPattern_def)
  ultimately show ?thesis
    using ex by (simp add: compressPattern_range_order [OF assms] compressPattern_prefixed)
qed

lemma compressPattern_table_example:
  "compressPattern_range (rev prefixMapper) ''domain:example.com'' = ''dexample.com'' \<and>
   compressPattern_range (rev prefixMapper) ''geosite:cn'' = ''egeosite.dat:cn'' \<and>
   compressPattern_range (rev prefixMapper) ''nodialect.com'' = ''fnodialect.com'' \<and>
   compressPattern_range (rev prefixMapper) (''keyword:'' @ ''abc'') = ''k'' @ ''abc''"
  using compressPattern_table [OF set_rev [of prefixMapper], of "''nodialect.com''"]
  by (simp add: prefixMapper_def)

text \<open>
  Claim C1 fails on the code: the compressor does not change the case of the tag, so
  \<open>"geosite:cn"\<close> does not compress to \<open>"egeosite.dat:CN"\<close>, although the static-host
  branch of \<open>Build\<close> upper-cases the tag of the same key before it calls the loader.
\<close>

theorem compressPattern_geosite_not_upper:
  "compressPattern ''geosite:cn'' \<noteq> ''egeosite.dat:CN''"
  by (simp add: compressPattern_def prefixMapper_def)

text \<open>
  Claim C10. For every order in which the table is visited, \<open>compressPattern\<close> returns a
  non-empty string whose first byte is one of \<open>d f k r i e\<close> (the empty pattern gives
  \<open>"f"\<close>), so \<open>loadExternalRules\<close> on its result does not panic; and on a pattern whose
  first byte is not \<open>e\<close>, \<open>loadExternalRules\<close> returns no error and the configuration
  unchanged.
\<close>

theorem compressPattern_nonempty_loadExternalRules_safe:
  assumes "set ord = set prefixMapper"
  shows "compressPattern_range ord p \<noteq> [] \<and>
    hd (compressPattern_range ord p) \<in>
      {CHR ''d'', CHR ''f'', CHR ''k'', CHR ''r'', CHR ''i'', CHR ''e''} \<and>
    compressPattern_range ord [] = ''f'' \<and>
    (\<exists>r. loadExternalRules env (compressPattern_range ord p) c = Some r) \<and>
    (hd (compressPattern_range ord p) \<noteq> CHR ''e'' \<longrightarrow>
       loadExternalRules env (compressPattern_range ord p) c = Some (c, None)) \<and>
    (q \<noteq> [] \<and> hd q \<noteq> CHR ''e'' \<longrightarrow> loadExternalRules env q c = Some (c, None))"
proof -
  have o: "compressPattern_range ord p = compressPattern p"
    "compressPattern_range ord [] = compressPattern []"
    using assms by (rule compressPattern_range_order)+
  have e: "compressPattern [] = ''f''"
    by (simp add: compressPattern_def prefixMapper_def)
  have ne: "\<And>q. q \<noteq> [] \<Longrightarrow> hd q \<noteq> CHR ''e'' \<Longrightarrow> loadExternalRules env q c = Some (c, None)"
    by (auto simp: loadExternalRules_def split: list.splits)
  have tot: "\<And>q. q \<noteq> [] \<Longrightarrow> \<exists>r. loadExternalRules env q c = Some r"
    by (auto simp: loadExternalRules_def loadExternalRules_fill_all split: list.splits sum.splits)
  from compressPattern_head [of p] ne tot e show ?thesis
    unfolding o by auto
qed

theorem compressPattern_nonempty_loadExternalRules_safe_witness:
  "compressPattern_range (rev prefixMapper) [] = ''f'' \<and>
   compressPattern_range (rev prefixMapper) ''geoip:private'' = ''iprivate'' \<and>
   loadExternalRules example_collaborators (compressPattern_range (rev prefixMapper) ''geoip:private'')
     \<lparr>dns_Tag = [], dns_ClientIp = [], dns_NameServer = [], dns_HostRules = [],
      dns_StaticHosts = [], dns_ExternalRules = Map.empty, dns_Fake = None\<rparr> =
   Some (\<lparr>dns_Tag = [], dns_ClientIp = [], dns_NameServer = [], dns_HostRules = [],
      dns_StaticHosts = [], dns_ExternalRules = Map.empty, dns_Fake = None\<rparr>, None)"
  using compressPattern_nonempty_loadExternalRules_safe [OF set_rev [of prefixMapper], of "''geoip:private''"
      example_collaborators
      "\<lparr>dns_Tag = [], dns_ClientIp = [], dns_NameServer = [], dns_HostRules = [],
      dns_StaticHosts = [], dns_ExternalRules = Map.empty, dns_Fake = None\<rparr>" "''x''"]
  by (simp add: prefixMapper_def)


section \<open>Properties of the build\<close>

lemma length_two_cases: "length xs \<noteq> 2 \<or> (\<exists>a b. xs = [a, b])"
  by (auto simp: numeral_2_eq_2 length_Suc_conv)

lemma loadExternalRules_resolved:
  assumes "strings_Split arg CHR '':'' = [filename, country]"
    and "loadGeositeWithAttr env filename country = Inr ds"
  shows "loadExternalRules env (CHR ''e'' # arg) c =
    Some (c\<lparr>dns_ExternalRules :=
              (dns_ExternalRules c)(arg \<mapsto> map (\<lambda>d. typeMapper (Type d) @ Value d) ds)\<rparr>, None)"
  using assms by (simp add: loadExternalRules_def loadExternalRules_fill_all)

lemma loadExternalRules_unresolved:
  assumes "strings_Split arg CHR '':'' = [filename, country]"
    and "loadGeositeWithAttr env filename country = Inl err"
  shows "\<exists>e. loadExternalRules env (CHR ''e'' # arg) c = Some (c, Some e)"
  using assms by (simp add: loadExternalRules_def)

lemma loadExternalRules_malformed:
  assumes "length (strings_Split arg CHR '':'') \<noteq> 2"
  shows "\<exists>e. loadExternalRules env (CHR ''e'' # arg) c = Some (c, Some e)"
proof -
  have "\<And>f t. strings_Split arg CHR '':'' \<noteq> [f, t]"
    using assms by auto
  then show ?thesis
    by (simp add: loadExternalRules_def split: list.splits)
qed

lemma loadExternalRules_other:
  "cmd \<noteq> CHR ''e'' \<Longrightarrow> loadExternalRules env (cmd # arg) c = Some (c, None)"
  by (simp add: loadExternalRules_def)

text \<open>Every call on a non-empty pattern returns, and changes at most the external rules.\<close>

lemma loadExternalRules_returns:
  assumes "q \<noteq> []"
  shows "\<exists>m e. loadExternalRules env q c = Some (c\<lparr>dns_ExternalRules := m\<rparr>, e)"
proof -
  from assms obtain cmd arg where q: "q = cmd # arg"
    by (cases q) auto
  have same: "c = c\<lparr>dns_ExternalRules := dns_ExternalRules c\<rparr>" by simp
  consider (other) "cmd \<noteq> CHR ''e''"
    | (malformed) "cmd = CHR ''e''" "length (strings_Split arg CHR '':'') \<noteq> 2"
    | (split) f t where "cmd = CHR ''e''" "strings_Split arg CHR '':'' = [f, t]"
    using length_two_cases [of "strings_Split arg CHR '':''"] by blast
  then show ?thesis
  proof cases
    case other
    then show ?thesis
      unfolding q using loadExternalRules_other [of cmd env arg c] same by metis
  next
    case malformed
    then show ?thesis
      unfolding q using loadExternalRules_malformed [of arg env c] same by metis
  next
    case split
    show ?thesis
    proof (cases "loadGeositeWithAttr env f t")
      case (Inl err)
      with split show ?thesis
        unfolding q using loadExternalRules_unresolved [of arg f t env err c] same by metis
    next
      case (Inr ds)
      with split show ?thesis
        unfolding q using loadExternalRules_resolved [of arg f t env ds c] by blast
    qed
  qed
qed


lemma getHostPattern_returns:
  "\<exists>m h. getHostPattern env (Some addr) p c =
     Some (c\<lparr>dns_ExternalRules := m, dns_HostRules := h\<rparr>)"
proof -
  have "compressPattern p \<noteq> []"
    using compressPattern_head [of p] by simp
  from loadExternalRules_returns [OF this, of env c]
  obtain m e where l: "loadExternalRules env (compressPattern p) c =
      Some (c\<lparr>dns_ExternalRules := m\<rparr>, e)" by blast
  show ?thesis
  proof (cases e)
    case None
    with l have "getHostPattern env (Some addr) p c =
      Some (c\<lparr>dns_ExternalRules := m, dns_HostRules := dns_HostRules c @
        [(case addr of
            IPAddress ip \<Rightarrow> new_Config_HostMapping\<lparr>hm_Ip := [ip]\<rparr>
          | DomainAddress domain \<Rightarrow> new_Config_HostMapping\<lparr>hm_ProxiedDomain := domain\<rparr>)
         \<lparr>hm_Pattern := compressPattern p\<rparr>]\<rparr>)"
      by (simp add: getHostPattern_def)
    then show ?thesis by blast
  next
    case (Some err)
    with l have "getHostPattern env (Some addr) p c =
      Some (c\<lparr>dns_ExternalRules := m, dns_HostRules := dns_HostRules c\<rparr>)"
      by (simp add: getHostPattern_def)
    then show ?thesis by blast
  qed
qed

lemma Build_range_hosts_returns:
  "None \<notin> snd ` set hosts \<Longrightarrow>
   \<exists>m h. Build_range_hosts env hosts ds c =
     Some (ds @ map fst hosts, c\<lparr>dns_ExternalRules := m, dns_HostRules := h\<rparr>)"
proof (induction hosts arbitrary: ds c)
  case Nil
  have "c = c\<lparr>dns_ExternalRules := dns_ExternalRules c, dns_HostRules := dns_HostRules c\<rparr>"
    by simp
  then show ?case by (metis Build_range_hosts.simps(1) append_Nil2 list.simps(8))
next
  case (Cons entry hosts)
  from Cons.prems obtain pattern address where entry: "entry = (pattern, Some address)"
    by (cases entry) force
  from Cons.prems have rest: "None \<notin> snd ` set hosts" by auto
  from getHostPattern_returns [of env address pattern c]
  obtain m h where g: "getHostPattern env (Some address) pattern c =
      Some (c\<lparr>dns_ExternalRules := m, dns_HostRules := h\<rparr>)" by blast
  from Cons.IH [OF rest, of "ds @ [pattern]" "c\<lparr>dns_ExternalRules := m, dns_HostRules := h\<rparr>"]
  obtain m' h' where "Build_range_hosts env hosts (ds @ [pattern])
      (c\<lparr>dns_ExternalRules := m, dns_HostRules := h\<rparr>) =
      Some ((ds @ [pattern]) @ map fst hosts, c\<lparr>dns_ExternalRules := m', dns_HostRules := h'\<rparr>)"
    by auto
  with g entry show ?case by auto
qed

lemma getHostMapping_Some: "\<exists>mapping. getHostMapping (Some addr) = Some mapping"
  by (cases addr) auto

lemma Build_list_mappings_returns:
  "\<exists>mappings'. Build_list_mappings (Some addr) ds mappings = Some mappings'"
proof (induction ds arbitrary: mappings)
  case Nil
  then show ?case by simp
next
  case (Cons d ds)
  from getHostMapping_Some [of addr] obtain mapping where "getHostMapping (Some addr) = Some mapping"
    by blast
  with Cons.IH show ?case by simp
qed

lemma Build_mappings_returns: "\<exists>r. Build_mappings env domain (Some addr) = Some r"
proof -
  from getHostMapping_Some [of addr] obtain mapping where g: "getHostMapping (Some addr) = Some mapping"
    by blast
  have l: "\<And>ds. \<exists>z. Build_list_mappings (Some addr) ds [] = Some z"
    by (rule Build_list_mappings_returns)
  show ?thesis
    unfolding Build_mappings_def
    by (simp add: g l split: sum.splits list.splits)
qed

lemma Build_static_hosts_returns:
  "\<forall>d \<in> set ds. \<exists>addr. map_of hosts d = Some (Some addr) \<Longrightarrow>
   (\<exists>err. Build_static_hosts env hosts ds c = Some (Inl err)) \<or>
   (\<exists>s. Build_static_hosts env hosts ds c = Some (Inr (c\<lparr>dns_StaticHosts := s\<rparr>)))"
proof (induction ds arbitrary: c)
  case Nil
  have "c = c\<lparr>dns_StaticHosts := dns_StaticHosts c\<rparr>" by simp
  then show ?case by (metis Build_static_hosts.simps(1))
next
  case (Cons d ds)
  then obtain addr where a: "map_of hosts d = Some (Some addr)" by auto
  from Build_mappings_returns [of env d addr] obtain r where r: "Build_mappings env d (Some addr) = Some r"
    by blast
  show ?case
  proof (cases r)
    case (Inl err)
    with a r show ?thesis by simp
  next
    case (Inr mappings)
    from Cons.prems have "\<forall>d \<in> set ds. \<exists>addr. map_of hosts d = Some (Some addr)" by simp
    from Cons.IH [OF this, of "c\<lparr>dns_StaticHosts := dns_StaticHosts c @ mappings\<rparr>"]
    show ?thesis using a r Inr by auto
  qed
qed

lemma Build_range_fake_rules_returns:
  "i + length ps \<le> length fr \<Longrightarrow>
   \<exists>fr' i' m. Build_range_fake_rules env ps fr i c =
       Some (fr', i', c\<lparr>dns_ExternalRules := m\<rparr>) \<and> i' \<le> length fr'"
proof (induction ps arbitrary: fr i c)
  case Nil
  have "c = c\<lparr>dns_ExternalRules := dns_ExternalRules c\<rparr>" by simp
  with Nil show ?case by (metis Build_range_fake_rules.simps(1) add.right_neutral list.size(3))
next
  case (Cons p ps)
  have "compressPattern p \<noteq> []"
    using compressPattern_head [of p] by simp
  from loadExternalRules_returns [OF this, of env c]
  obtain m e where l: "loadExternalRules env (compressPattern p) c =
      Some (c\<lparr>dns_ExternalRules := m\<rparr>, e)" by blast
  show ?case
  proof (cases e)
    case None
    from Cons.prems have lt: "i < length fr" by simp
    from Cons.prems have "(i + 1) + length ps \<le> length (fr[i := compressPattern p])" by simp
    from Cons.IH [OF this, of "c\<lparr>dns_ExternalRules := m\<rparr>"] l None lt
    show ?thesis by (auto simp: Let_def)
  next
    case (Some err)
    from Cons.prems have "i + length ps \<le> length fr" by simp
    from Cons.IH [OF this, of "c\<lparr>dns_ExternalRules := m\<rparr>"] l Some
    show ?thesis by (auto simp: Let_def)
  qed
qed

lemma Build_fake_None: "Fake c = None \<Longrightarrow> Build_fake env c config = Some config"
  by (simp add: Build_fake_def)

lemma Build_fake_Some:
  assumes "Fake c = Some fake"
  shows "\<exists>m rs. Build_fake env c config =
    Some (config\<lparr>dns_ExternalRules := m,
                 dns_Fake := Some \<lparr>dns_FakeNet =
                     (if FakeNet fake = [] then ''224.0.0.0/8'' else FakeNet fake),
                   dns_FakeRules = rs\<rparr>\<rparr>)"
proof (cases "FakeRules fake")
  case None
  with assms have "Build_fake env c config =
    Some (config\<lparr>dns_ExternalRules := dns_ExternalRules config,
                 dns_Fake := Some \<lparr>dns_FakeNet =
                     (if FakeNet fake = [] then ''224.0.0.0/8'' else FakeNet fake),
                   dns_FakeRules = []\<rparr>\<rparr>)"
    by (simp add: Build_fake_def)
  then show ?thesis by blast
next
  case (Some rules)
  let ?config = "config\<lparr>dns_Fake := Some \<lparr>dns_FakeNet =
                     (if FakeNet fake = [] then ''224.0.0.0/8'' else FakeNet fake),
                   dns_FakeRules = []\<rparr>\<rparr>"
  have "0 + length rules \<le> length (replicate (length rules) ([] :: string))" by simp
  from Build_range_fake_rules_returns [OF this, of env ?config]
  obtain fr' i' m where r: "Build_range_fake_rules env rules (replicate (length rules) []) 0 ?config =
      Some (fr', i', ?config\<lparr>dns_ExternalRules := m\<rparr>)" "i' \<le> length fr'"
    by blast
  with assms Some have "Build_fake env c config =
    Some (config\<lparr>dns_ExternalRules := m,
                 dns_Fake := Some \<lparr>dns_FakeNet =
                     (if FakeNet fake = [] then ''224.0.0.0/8'' else FakeNet fake),
                   dns_FakeRules = take i' fr'\<rparr>\<rparr>)"
    by (simp add: Build_fake_def)
  then show ?thesis by blast
qed

lemma Build_client_ip_frame:
  "Build_client_ip c config = Inr config' \<Longrightarrow> \<exists>ip. config' = config\<lparr>dns_ClientIp := ip\<rparr>"
  by (auto simp: Build_client_ip_def split: option.splits Address.splits)
    (metis dns_Config.update_convs(2) dns_Config.surjective)

lemma Build_servers_frame:
  "Build_servers env servers config = Some (Inr config') \<Longrightarrow>
   \<exists>ns. config' = config\<lparr>dns_NameServer := ns\<rparr>"
proof (induction servers arbitrary: config)
  case Nil
  then have "config' = config\<lparr>dns_NameServer := dns_NameServer config\<rparr>" by simp
  then show ?case by (rule exI)
next
  case (Cons server servers)
  then show ?case
    by (fastforce split: option.splits sum.splits)
qed

lemma Build_servers_returns:
  "None \<notin> set servers \<Longrightarrow> \<exists>r. Build_servers env servers config = Some r"
proof (induction servers arbitrary: config)
  case Nil
  then show ?case by simp
next
  case (Cons server servers)
  then obtain s where s: "server = Some s" by (cases server) auto
  from Cons.prems have rest: "None \<notin> set servers" by auto
  obtain r where r: "NameServerConfig_Build env (Some s) = Some r"
    by (simp add: NameServerConfig_Build_def)
  show ?case
  proof (cases r)
    case (Inl err)
    with s r show ?thesis by simp
  next
    case (Inr ns)
    with s r Cons.IH [OF rest] show ?thesis by simp
  qed
qed

lemma map_of_keys:
  assumes "None \<notin> snd ` set hosts"
  shows "\<forall>d \<in> set (sort (map fst hosts)). \<exists>addr. map_of hosts d = Some (Some addr)"
proof
  fix d assume "d \<in> set (sort (map fst hosts))"
  then have "d \<in> fst ` set hosts" by simp
  then obtain v where v: "map_of hosts d = Some v"
    by (cases "map_of hosts d") (auto simp: map_of_eq_None_iff)
  then have "(d, v) \<in> set hosts" by (rule map_of_SomeD)
  with assms have "v \<noteq> None" by force
  with v show "\<exists>addr. map_of hosts d = Some (Some addr)" by auto
qed

lemma Build_hosts_returns:
  assumes "None \<notin> snd ` set (Hosts c)"
  shows "(\<exists>err. Build_hosts env c config = Some (Inl err)) \<or>
   (\<exists>m h s. Build_hosts env c config =
      Some (Inr (config\<lparr>dns_ExternalRules := m, dns_HostRules := h, dns_StaticHosts := s\<rparr>)))"
proof (cases "Hosts c = []")
  case True
  have "config = config\<lparr>dns_ExternalRules := dns_ExternalRules config,
      dns_HostRules := dns_HostRules config, dns_StaticHosts := dns_StaticHosts config\<rparr>"
    by simp
  with True show ?thesis
    unfolding Build_hosts_def by (metis (full_types))
next
  case False
  from Build_range_hosts_returns [OF assms, of env "[]" config]
  obtain m h where r: "Build_range_hosts env (Hosts c) [] config =
      Some (map fst (Hosts c), config\<lparr>dns_ExternalRules := m, dns_HostRules := h\<rparr>)"
    by auto
  from Build_static_hosts_returns [OF map_of_keys [OF assms], of env
      "config\<lparr>dns_ExternalRules := m, dns_HostRules := h\<rparr>"]
  show ?thesis
    using False r by (auto simp: Build_hosts_def)
qed


text \<open>
  \<open>Build\<close> returns (it does not panic) when no address of \<open>Hosts\<close> and no element of
  \<open>Servers\<close> is nil.
\<close>

lemma Build_returns:
  assumes "None \<notin> snd ` set (Hosts c)" and "None \<notin> set (Servers c)"
  shows "(\<exists>err. Build env c = Some (None, Some err)) \<or>
    (\<exists>cfg. Build env c = Some (Some cfg, None))"
proof -
  have f: "\<exists>cfg. Build_fake env c config = Some cfg" for config
    using Build_fake_None [of c env] Build_fake_Some [of c _ env] by (cases "Fake c") auto
  have h: "(\<exists>err. Build_hosts env c config = Some (Inl err)) \<or>
      (\<exists>config'. Build_hosts env c config = Some (Inr config'))" for config
    using Build_hosts_returns [OF assms(1), of env] by blast
  have s: "\<exists>r. Build_servers env (Servers c) config = Some r" for config
    using assms(2) by (rule Build_servers_returns)
  show ?thesis
  proof (cases "Build_client_ip c \<lparr>dns_Tag = Tag c, dns_ClientIp = [], dns_NameServer = [],
                    dns_HostRules = [], dns_StaticHosts = [],
                    dns_ExternalRules = Map.empty, dns_Fake = None\<rparr> :: error + 'a dns_Config")
    case (Inl err)
    then show ?thesis by (simp add: Build_def)
  next
    case c1: (Inr c1)
    from s [of c1] obtain r where r: "Build_servers env (Servers c) c1 = Some r" by blast
    show ?thesis
    proof (cases r)
      case (Inl err)
      with c1 r show ?thesis by (simp add: Build_def)
    next
      case c2: (Inr c2)
      from h [of c2] show ?thesis
      proof
        assume "\<exists>err. Build_hosts env c c2 = Some (Inl err)"
        with c1 r c2 show ?thesis by (auto simp: Build_def)
      next
        assume "\<exists>config'. Build_hosts env c c2 = Some (Inr config')"
        then obtain c3 where c3: "Build_hosts env c c2 = Some (Inr c3)" by blast
        from f [of c3] obtain cfg where "Build_fake env c c3 = Some cfg" by blast
        with c1 r c2 c3 show ?thesis by (simp add: Build_def)
      qed
    qed
  qed
qed

lemma Build_success:
  "Build env c = Some (Some cfg, None) \<longleftrightarrow>
   (\<exists>c1 c2 c3.
      Build_client_ip c \<lparr>dns_Tag = Tag c, dns_ClientIp = [], dns_NameServer = [],
                    dns_HostRules = [], dns_StaticHosts = [],
                    dns_ExternalRules = Map.empty, dns_Fake = None\<rparr> = Inr c1 \<and>
      Build_servers env (Servers c) c1 = Some (Inr c2) \<and>
      Build_hosts env c c2 = Some (Inr c3) \<and>
      Build_fake env c c3 = Some cfg)"
  unfolding Build_def Let_def
  by (auto split: sum.splits option.splits)

lemmas Build_eval =
  Build_def Build_client_ip_def Build_hosts_def Build_fake_def getHostPattern_def
  loadExternalRules_def Build_mappings_def compressPattern_def prefixMapper_def
  new_Config_HostMapping_def NameServerConfig_Build_def newError_def
  example_collaborators_def Let_def


lemma strings_Split_no_sep: "sep \<notin> set s \<Longrightarrow> strings_Split s sep = [s]"
  by (induction s) auto

lemma Build_mappings_malformed:
  assumes "CHR '':'' \<notin> set arg"
  shows "Build_mappings env (''ext:'' @ arg) addr =
    Some (Inl (newError [''invalid external resource: '', ''ext:'' @ arg]))"
  using strings_Split_no_sep [OF assms] by (simp add: Build_mappings_def)

lemma Build_static_hosts_malformed:
  assumes "CHR '':'' \<notin> set arg"
  shows "''ext:'' @ arg \<in> set ds \<Longrightarrow>
    \<forall>d \<in> set ds. \<exists>addr. map_of hosts d = Some (Some addr) \<Longrightarrow>
    \<exists>err. Build_static_hosts env hosts ds c = Some (Inl err)"
proof (induction ds arbitrary: c)
  case Nil
  then show ?case by simp
next
  case (Cons d ds)
  show ?case
  proof (cases "d = ''ext:'' @ arg")
    case True
    then show ?thesis
      using Build_mappings_malformed [OF assms, of env] by simp
  next
    case False
    with Cons.prems have k: "''ext:'' @ arg \<in> set ds" by simp
    from Cons.prems have m: "\<forall>d \<in> set ds. \<exists>addr. map_of hosts d = Some (Some addr)" by simp
    from Cons.prems obtain addr where a: "map_of hosts d = Some (Some addr)" by auto
    from Build_mappings_returns [of env d addr] obtain r where r: "Build_mappings env d (Some addr) = Some r"
      by blast
    show ?thesis
    proof (cases r)
      case (Inl err)
      with a r show ?thesis by simp
    next
      case (Inr mappings)
      with a r Cons.IH [OF k m] show ?thesis by simp
    qed
  qed
qed

text \<open>
  Claim C3, as the code has it. When no address of the \<open>Hosts\<close> map and no element of
  \<open>Servers\<close> is nil, and the \<open>Hosts\<close> map has a key \<open>"ext:"\<close> followed by an argument
  without \<open>":"\<close>, \<open>Build\<close> returns an error and the nil configuration, whatever the rest
  of the input and whatever the order in which the map is visited.
\<close>

theorem Build_malformed_ext_aborts:
  assumes "''ext:'' @ arg \<in> fst ` set (Hosts c)" and "CHR '':'' \<notin> set arg"
    and "None \<notin> snd ` set (Hosts c)" and "None \<notin> set (Servers c)"
  shows "\<exists>err. Build env c = Some (None, Some err)"
proof -
  from assms(1) have ne: "Hosts c \<noteq> []" by auto
  have hosts: "\<exists>err. Build_hosts env c config = Some (Inl err)" for config
  proof -
    from Build_range_hosts_returns [OF assms(3), of env "[]" config]
    obtain m h where r: "Build_range_hosts env (Hosts c) [] config =
        Some (map fst (Hosts c), config\<lparr>dns_ExternalRules := m, dns_HostRules := h\<rparr>)"
      by auto
    from assms(1) have "''ext:'' @ arg \<in> set (sort (map fst (Hosts c)))" by simp
    from Build_static_hosts_malformed [OF assms(2) this map_of_keys [OF assms(3)]] r ne
    show ?thesis by (simp add: Build_hosts_def)
  qed
  show ?thesis
  proof (cases "Build_client_ip c \<lparr>dns_Tag = Tag c, dns_ClientIp = [], dns_NameServer = [],
                    dns_HostRules = [], dns_StaticHosts = [],
                    dns_ExternalRules = Map.empty, dns_Fake = None\<rparr> :: error + 'a dns_Config")
    case (Inl err)
    then show ?thesis by (simp add: Build_def)
  next
    case c1: (Inr c1)
    from Build_servers_returns [OF assms(4), of env c1]
    obtain r where r: "Build_servers env (Servers c) c1 = Some r" by blast
    show ?thesis
    proof (cases r)
      case (Inl err)
      with c1 r show ?thesis by (simp add: Build_def)
    next
      case (Inr c2)
      from hosts [of c2] obtain err where "Build_hosts env c c2 = Some (Inl err)" by blast
      with c1 r Inr show ?thesis by (simp add: Build_def)
    qed
  qed
qed

theorem Build_malformed_ext_aborts_witness:
  "''ext:'' @ ''onlyonepart'' \<in> fst ` set (Hosts example_malformed) \<and>
   CHR '':'' \<notin> set ''onlyonepart'' \<and>
   None \<notin> snd ` set (Hosts example_malformed) \<and>
   None \<notin> set (Servers example_malformed) \<and>
   (\<exists>err. Build example_collaborators example_malformed = Some (None, Some err))"
  using Build_malformed_ext_aborts [of "''onlyonepart''" example_malformed example_collaborators]
  by (simp add: example_malformed_def)

text \<open>
  Claim C3 as stated fails: a \<open>Hosts\<close> map may hold a nil address, and then the first
  loop panics in \<open>getHostPattern\<close> before the malformed \<open>ext:\<close> key is examined, so
  \<open>Build\<close> returns neither an error nor a configuration.
\<close>

theorem Build_malformed_ext_nil_address_panics:
  "''ext:'' @ ''onlyonepart'' \<in> fst ` set (Hosts example_nil_address) \<and>
   CHR '':'' \<notin> set ''onlyonepart'' \<and>
   Build example_collaborators example_nil_address = None"
  by (simp add: Build_eval example_nil_address_def)



lemma Build_static_hosts_frame:
  "Build_static_hosts env hosts ds c = Some (Inr c') \<Longrightarrow>
   \<exists>s. c' = c\<lparr>dns_StaticHosts := s\<rparr>"
proof (induction ds arbitrary: c)
  case Nil
  then have "c' = c\<lparr>dns_StaticHosts := dns_StaticHosts c\<rparr>" by simp
  then show ?case by (rule exI)
next
  case (Cons d ds)
  then show ?case
    by (fastforce split: option.splits sum.splits)
qed



lemma Build_range_fake_rules_keep:
  assumes "loadExternalRules env (compressPattern p) c = Some (c', None)" and "i < length fr"
  shows "Build_range_fake_rules env (p # ps) fr i c =
    Build_range_fake_rules env ps (fr[i := compressPattern p]) (i + 1) c'"
  using assms by (simp add: Let_def)

lemma Build_range_fake_rules_drop:
  assumes "loadExternalRules env (compressPattern p) c = Some (c', Some err)"
  shows "Build_range_fake_rules env (p # ps) fr i c = Build_range_fake_rules env ps fr i c'"
  using assms by (simp add: Let_def)

lemma Build_without_fake:
  assumes "Build env (c\<lparr>Fake := None\<rparr>) = Some (Some cfg0, None)"
  shows "Build env c =
    (case Build_fake env c cfg0 of None \<Rightarrow> None | Some cfg \<Rightarrow> Some (Some cfg, None))"
proof -
  have ip: "Build_client_ip (c\<lparr>Fake := None\<rparr>) config = Build_client_ip c config"
    for config :: "'a dns_Config"
    by (simp add: Build_client_ip_def)
  have hosts: "Build_hosts env (c\<lparr>Fake := None\<rparr>) config = Build_hosts env c config"
    for config :: "'a dns_Config"
  proof -
    have h: "Hosts (c\<lparr>Fake := None\<rparr>) = Hosts c" by simp
    show ?thesis unfolding Build_hosts_def h by (rule refl)
  qed
  from assms obtain c1 c2 c3 where
    "Build_client_ip c \<lparr>dns_Tag = Tag c, dns_ClientIp = [], dns_NameServer = [],
                    dns_HostRules = [], dns_StaticHosts = [],
                    dns_ExternalRules = Map.empty, dns_Fake = None\<rparr> = Inr c1"
    "Build_servers env (Servers c) c1 = Some (Inr c2)"
    "Build_hosts env c c2 = Some (Inr c3)"
    "Build_fake env (c\<lparr>Fake := None\<rparr>) c3 = Some cfg0"
    unfolding Build_success ip hosts by auto
  then show ?thesis
    by (simp add: Build_def Build_fake_None)
qed

text \<open>
  Claim C4. Let the fake-rule list consist of two patterns, in either order: one whose
  external-list reference resolves and one whose resolution fails (its argument is
  malformed or the loader returns an error). If the rest of the configuration builds,
  then \<open>Build\<close> succeeds and the fake-rule list of the result is exactly the compressed
  form of the resolvable pattern.
\<close>

theorem Build_fake_rules_partial:
  assumes prior: "Build env (c\<lparr>Fake := None\<rparr>) = Some (Some cfg0, None)"
    and fake: "Fake c = Some fake" "FakeRules fake = Some rules"
      "rules = [p1, p2] \<or> rules = [p2, p1]"
    and ok: "compressPattern p1 = CHR ''e'' # arg1"
      "strings_Split arg1 CHR '':'' = [file1, tag1]"
      "loadGeositeWithAttr env file1 tag1 = Inr ds"
    and bad: "compressPattern p2 = CHR ''e'' # arg2"
      "length (strings_Split arg2 CHR '':'') \<noteq> 2 \<or>
       (\<exists>file2 tag2 err. strings_Split arg2 CHR '':'' = [file2, tag2] \<and>
          loadGeositeWithAttr env file2 tag2 = Inl err)"
  shows "\<exists>cfg fk. Build env c = Some (Some cfg, None) \<and> dns_Fake cfg = Some fk \<and>
    dns_FakeRules fk = [compressPattern p1]"
proof -
  let ?cp = "map (\<lambda>d. typeMapper (Type d) @ Value d) ds"
  have l1: "loadExternalRules env (compressPattern p1) config =
      Some (config\<lparr>dns_ExternalRules := (dns_ExternalRules config)(arg1 \<mapsto> ?cp)\<rparr>, None)"
    for config :: "'a dns_Config"
    unfolding ok(1) using ok(2,3) by (rule loadExternalRules_resolved)
  have l2: "\<exists>err. loadExternalRules env (compressPattern p2) config = Some (config, Some err)"
    for config :: "'a dns_Config"
    unfolding bad(1) using bad(2) loadExternalRules_malformed [of arg2 env config]
      loadExternalRules_unresolved [of arg2 _ _ env _ config] by blast
  let ?config = "cfg0\<lparr>dns_Fake := Some \<lparr>dns_FakeNet =
                     (if FakeNet fake = [] then ''224.0.0.0/8'' else FakeNet fake),
                   dns_FakeRules = []\<rparr>\<rparr>"
  let ?config' = "?config\<lparr>dns_ExternalRules := (dns_ExternalRules ?config)(arg1 \<mapsto> ?cp)\<rparr>"
  have loop: "Build_range_fake_rules env rules (replicate (length rules) []) 0 ?config =
      Some ([compressPattern p1, []], 1, ?config')"
  proof -
    from l2 [of ?config'] obtain e where e: "loadExternalRules env (compressPattern p2) ?config' =
        Some (?config', Some e)" by blast
    from l2 [of ?config] obtain e' where e': "loadExternalRules env (compressPattern p2) ?config =
        Some (?config, Some e')" by blast
    from fake(3) show ?thesis
    proof
      assume "rules = [p1, p2]"
      then show ?thesis
        using Build_range_fake_rules_keep [OF l1 [of ?config], of 0 "[[], []]" "[p2]"]
          Build_range_fake_rules_drop [OF e, of "[]" "[compressPattern p1, []]" 1]
        by simp
    next
      assume "rules = [p2, p1]"
      then show ?thesis
        using Build_range_fake_rules_drop [OF e', of "[p1]" "[[], []]" 0]
          Build_range_fake_rules_keep [OF l1 [of ?config], of 0 "[[], []]" "[]"]
        by simp
    qed
  qed
  have len: "length rules = 2" using fake(3) by auto
  have "Build_fake env c cfg0 =
      Some (?config'\<lparr>dns_Fake := Some \<lparr>dns_FakeNet =
                     (if FakeNet fake = [] then ''224.0.0.0/8'' else FakeNet fake),
                   dns_FakeRules = [compressPattern p1]\<rparr>\<rparr>)"
    unfolding Build_fake_def using fake(1,2) loop by (simp add: Let_def)
  with Build_without_fake [OF prior] show ?thesis by simp
qed

theorem Build_fake_rules_partial_witness:
  "\<exists>cfg fk. Build example_collaborators example_fake = Some (Some cfg, None) \<and>
     dns_Fake cfg = Some fk \<and> dns_FakeRules fk = [''egeosite.dat:CN'']"
proof -
  have prior: "Build example_collaborators (example_fake\<lparr>Fake := None\<rparr>) =
      Some (Some \<lparr>dns_Tag = ''dns'', dns_ClientIp = [], dns_NameServer = [],
                    dns_HostRules = [], dns_StaticHosts = [],
                    dns_ExternalRules = Map.empty, dns_Fake = None\<rparr>, None)"
    by (simp add: Build_eval example_fake_def)
  have fake: "Fake example_fake = Some \<lparr>FakeRules = Some [''geosite:XX'', ''geosite:CN''], FakeNet = []\<rparr>"
    "FakeRules \<lparr>FakeRules = Some [''geosite:XX'', ''geosite:CN''], FakeNet = []\<rparr> =
       Some [''geosite:XX'', ''geosite:CN'']"
    "[''geosite:XX'', ''geosite:CN''] = [''geosite:CN'', ''geosite:XX''] \<or>
     [''geosite:XX'', ''geosite:CN''] = [''geosite:XX'', ''geosite:CN'']"
    by (simp_all add: example_fake_def)
  have ok: "compressPattern ''geosite:CN'' = CHR ''e'' # ''geosite.dat:CN''"
    "strings_Split ''geosite.dat:CN'' CHR '':'' = [''geosite.dat'', ''CN'']"
    "loadGeositeWithAttr example_collaborators ''geosite.dat'' ''CN'' =
       Inr [\<lparr>Type = Domain_Domain, Value = ''cn''\<rparr>, \<lparr>Type = Domain_Full, Value = ''qq.com''\<rparr>]"
    by (simp_all add: compressPattern_def prefixMapper_def example_collaborators_def)
  have bad: "compressPattern ''geosite:XX'' = CHR ''e'' # ''geosite.dat:XX''"
    "length (strings_Split ''geosite.dat:XX'' CHR '':'') \<noteq> 2 \<or>
       (\<exists>file2 tag2 err. strings_Split ''geosite.dat:XX'' CHR '':'' = [file2, tag2] \<and>
          loadGeositeWithAttr example_collaborators file2 tag2 = Inl err)"
    by (simp_all add: compressPattern_def prefixMapper_def example_collaborators_def)
  from Build_fake_rules_partial [OF prior fake ok bad] ok(1) show ?thesis by simp
qed

text \<open>
  The two paths of one key. For the key \<open>"geosite:cn"\<close> and a loader that knows the tag
  \<open>CN\<close> only, the first loop asks the loader for the tag \<open>cn\<close> that the compressed pattern
  carries, fails and records no host rule, while the second loop asks for the
  upper-cased tag and emits the static hosts of the list.
\<close>

lemma Build_geosite_two_tags:
  "Build example_collaborators example_geosite_lower =
     Some (Some \<lparr>dns_Tag = ''dns'', dns_ClientIp = [], dns_NameServer = [],
             dns_HostRules = [],
             dns_StaticHosts =
               [\<lparr>hm_Type = DomainMatchingType_Subdomain, hm_Pattern = ''cn'',
                 hm_Ip = [[10, 0, 0, 1]], hm_ProxiedDomain = []\<rparr>,
                \<lparr>hm_Type = DomainMatchingType_Full, hm_Pattern = ''qq.com'',
                 hm_Ip = [[10, 0, 0, 1]], hm_ProxiedDomain = []\<rparr>],
             dns_ExternalRules = Map.empty, dns_Fake = None\<rparr>, None)"
  by (simp add: Build_eval example_geosite_lower_def)

text \<open>
  Claim C5 fails on the code. The two example configurations hold the same \<open>Hosts\<close> map
  and differ only in the order in which the first loop visits it; \<open>Build\<close> returns the
  same \<open>StaticHosts\<close>, which follow the sorted keys, but different \<open>HostRules\<close>, which
  follow the order of iteration.
\<close>

theorem Build_HostRules_follow_iteration_order:
  "map_of (Hosts example_order_ab) = map_of (Hosts example_order_ba) \<and>
   Build example_collaborators example_order_ab =
     Some (Some \<lparr>dns_Tag = ''dns'', dns_ClientIp = [], dns_NameServer = [],
             dns_HostRules =
               [\<lparr>hm_Type = DomainMatchingType_Full, hm_Pattern = ''fa.com'',
                 hm_Ip = [[10, 0, 0, 1]], hm_ProxiedDomain = []\<rparr>,
                \<lparr>hm_Type = DomainMatchingType_Full, hm_Pattern = ''fb.com'',
                 hm_Ip = [[10, 0, 0, 2]], hm_ProxiedDomain = []\<rparr>],
             dns_StaticHosts =
               [\<lparr>hm_Type = DomainMatchingType_Full, hm_Pattern = ''a.com'',
                 hm_Ip = [[10, 0, 0, 1]], hm_ProxiedDomain = []\<rparr>,
                \<lparr>hm_Type = DomainMatchingType_Full, hm_Pattern = ''b.com'',
                 hm_Ip = [[10, 0, 0, 2]], hm_ProxiedDomain = []\<rparr>],
             dns_ExternalRules = Map.empty, dns_Fake = None\<rparr>, None) \<and>
   Build example_collaborators example_order_ba =
     Some (Some \<lparr>dns_Tag = ''dns'', dns_ClientIp = [], dns_NameServer = [],
             dns_HostRules =
               [\<lparr>hm_Type = DomainMatchingType_Full, hm_Pattern = ''fb.com'',
                 hm_Ip = [[10, 0, 0, 2]], hm_ProxiedDomain = []\<rparr>,
                \<lparr>hm_Type = DomainMatchingType_Full, hm_Pattern = ''fa.com'',
                 hm_Ip = [[10, 0, 0, 1]], hm_ProxiedDomain = []\<rparr>],
             dns_StaticHosts =
               [\<lparr>hm_Type = DomainMatchingType_Full, hm_Pattern = ''a.com'',
                 hm_Ip = [[10, 0, 0, 1]], hm_ProxiedDomain = []\<rparr>,
                \<lparr>hm_Type = DomainMatchingType_Full, hm_Pattern = ''b.com'',
                 hm_Ip = [[10, 0, 0, 2]], hm_ProxiedDomain = []\<rparr>],
             dns_ExternalRules = Map.empty, dns_Fake = None\<rparr>, None)"
proof (intro conjI)
  show "map_of (Hosts example_order_ab) = map_of (Hosts example_order_ba)"
    by (rule ext) (simp add: example_order_ab_def example_order_ba_def)
qed (simp_all add: Build_eval example_order_ab_def example_order_ba_def)

lemma ExternalRules_sound_empty: "ExternalRules_sound env Map.empty"
  by (simp add: ExternalRules_sound_def)

lemma ExternalRules_sound_lookup:
  assumes "ExternalRules_sound env rules" and "arg \<in> dom rules"
    and "strings_Split arg CHR '':'' = [filename, country]"
    and "loadGeositeWithAttr env filename country = Inr domains"
  shows "rules arg = Some (map (\<lambda>d. typeMapper (Type d) @ Value d) domains)"
proof -
  from assms(2) obtain patterns where p: "rules arg = Some patterns" by auto
  with assms(1) obtain filename' country' domains' where
    "strings_Split arg CHR '':'' = [filename', country']"
    "loadGeositeWithAttr env filename' country' = Inr domains'"
    "patterns = map (\<lambda>d. typeMapper (Type d) @ Value d) domains'"
    unfolding ExternalRules_sound_def by blast
  with assms(3,4) p show ?thesis by simp
qed

lemma ExternalRules_sound_update:
  assumes "ExternalRules_sound env rules"
    and "strings_Split arg CHR '':'' = [filename, country]"
    and "loadGeositeWithAttr env filename country = Inr domains"
  shows "ExternalRules_sound env (rules(arg \<mapsto> map (\<lambda>d. typeMapper (Type d) @ Value d) domains))"
  unfolding ExternalRules_sound_def
proof (intro allI impI)
  fix arg' patterns
  assume a: "(rules(arg \<mapsto> map (\<lambda>d. typeMapper (Type d) @ Value d) domains)) arg' = Some patterns"
  show "\<exists>filename country domains.
           strings_Split arg' CHR '':'' = [filename, country] \<and>
           loadGeositeWithAttr env filename country = Inr domains \<and>
           patterns = map (\<lambda>d. typeMapper (Type d) @ Value d) domains"
  proof (cases "arg' = arg")
    case True
    with a assms(2,3) show ?thesis by auto
  next
    case False
    with a have "rules arg' = Some patterns" by simp
    with assms(1) show ?thesis unfolding ExternalRules_sound_def by blast
  qed
qed

text \<open>The possible outcomes of one call of \<open>loadExternalRules\<close>.\<close>

lemma loadExternalRules_cases:
  assumes "loadExternalRules env q c = Some (c', e)"
  shows "c' = c \<or>
    (\<exists>arg filename country domains. q = CHR ''e'' # arg \<and> e = None \<and>
       strings_Split arg CHR '':'' = [filename, country] \<and>
       loadGeositeWithAttr env filename country = Inr domains \<and>
       c' = c\<lparr>dns_ExternalRules := (dns_ExternalRules c)
              (arg \<mapsto> map (\<lambda>d. typeMapper (Type d) @ Value d) domains)\<rparr>)"
proof -
  from assms obtain cmd arg where q: "q = cmd # arg"
    by (cases q) (auto simp: loadExternalRules_def)
  consider (other) "cmd \<noteq> CHR ''e''"
    | (malformed) "cmd = CHR ''e''" "length (strings_Split arg CHR '':'') \<noteq> 2"
    | (split) f t where "cmd = CHR ''e''" "strings_Split arg CHR '':'' = [f, t]"
    using length_two_cases [of "strings_Split arg CHR '':''"] by blast
  then show ?thesis
  proof cases
    case other
    with assms q loadExternalRules_other [of cmd env arg c] show ?thesis by simp
  next
    case malformed
    with assms q loadExternalRules_malformed [of arg env c] show ?thesis by auto
  next
    case split
    show ?thesis
    proof (cases "loadGeositeWithAttr env f t")
      case (Inl err)
      with split assms q loadExternalRules_unresolved [of arg f t env err c] show ?thesis by auto
    next
      case (Inr ds)
      with split assms q loadExternalRules_resolved [of arg f t env ds c] show ?thesis by auto
    qed
  qed
qed

lemma loadExternalRules_sound:
  assumes "loadExternalRules env q c = Some (c', e)"
    and "ExternalRules_sound env (dns_ExternalRules c)"
  shows "ExternalRules_sound env (dns_ExternalRules c') \<and>
    dom (dns_ExternalRules c) \<subseteq> dom (dns_ExternalRules c')"
  using loadExternalRules_cases [OF assms(1)] assms(2)
  by (auto intro: ExternalRules_sound_update)

lemma getHostPattern_sound:
  assumes "getHostPattern env addr p c = Some c'"
    and "ExternalRules_sound env (dns_ExternalRules c)"
  shows "ExternalRules_sound env (dns_ExternalRules c') \<and>
    dom (dns_ExternalRules c) \<subseteq> dom (dns_ExternalRules c')"
proof -
  from assms(1) obtain c'' e where l: "loadExternalRules env (compressPattern p) c = Some (c'', e)"
    and "dns_ExternalRules c' = dns_ExternalRules c''"
    by (auto simp: getHostPattern_def Let_def split: option.splits if_splits)
  with loadExternalRules_sound [OF l assms(2)] show ?thesis by simp
qed

lemma getHostPattern_stores:
  assumes "getHostPattern env addr p c = Some c'"
    and "compressPattern p = CHR ''e'' # arg"
    and "strings_Split arg CHR '':'' = [filename, country]"
    and "loadGeositeWithAttr env filename country = Inr domains"
  shows "arg \<in> dom (dns_ExternalRules c')"
  using assms(1) loadExternalRules_resolved [OF assms(3,4), of c]
  by (auto simp: getHostPattern_def Let_def assms(2) split: option.splits)

lemma Build_range_hosts_sound:
  assumes "Build_range_hosts env hosts ds c = Some (ds', c')"
    and "ExternalRules_sound env (dns_ExternalRules c)"
  shows "ExternalRules_sound env (dns_ExternalRules c') \<and>
    dom (dns_ExternalRules c) \<subseteq> dom (dns_ExternalRules c')"
  using assms
proof (induction hosts arbitrary: ds c)
  case Nil
  then show ?case by simp
next
  case (Cons entry hosts)
  obtain pattern address where entry: "entry = (pattern, address)" by (cases entry)
  from Cons.prems(1) entry obtain c1 where
    g: "getHostPattern env address pattern c = Some c1" and
    r: "Build_range_hosts env hosts (ds @ [pattern]) c1 = Some (ds', c')"
    by (auto split: option.splits)
  from getHostPattern_sound [OF g Cons.prems(2)] Cons.IH [OF r] show ?case by blast
qed

lemma Build_range_hosts_stores:
  assumes "Build_range_hosts env hosts ds c = Some (ds', c')"
    and "ExternalRules_sound env (dns_ExternalRules c)"
    and "p \<in> fst ` set hosts"
    and "compressPattern p = CHR ''e'' # arg"
    and "strings_Split arg CHR '':'' = [filename, country]"
    and "loadGeositeWithAttr env filename country = Inr domains"
  shows "arg \<in> dom (dns_ExternalRules c')"
  using assms(1,2,3)
proof (induction hosts arbitrary: ds c)
  case Nil
  then show ?case by simp
next
  case (Cons entry hosts)
  obtain pattern address where entry: "entry = (pattern, address)" by (cases entry)
  from Cons.prems(1) entry obtain c1 where
    g: "getHostPattern env address pattern c = Some c1" and
    r: "Build_range_hosts env hosts (ds @ [pattern]) c1 = Some (ds', c')"
    by (auto split: option.splits)
  from getHostPattern_sound [OF g Cons.prems(2)]
  have s1: "ExternalRules_sound env (dns_ExternalRules c1)" by simp
  show ?case
  proof (cases "p = pattern")
    case True
    with getHostPattern_stores [OF g _ assms(5,6)] assms(4)
    have "arg \<in> dom (dns_ExternalRules c1)" by simp
    with Build_range_hosts_sound [OF r s1] show ?thesis by blast
  next
    case False
    with Cons.prems(3) entry have "p \<in> fst ` set hosts" by auto
    from Cons.IH [OF r s1 this] show ?thesis .
  qed
qed

lemma Build_range_fake_rules_sound:
  assumes "Build_range_fake_rules env ps fr i c = Some (fr', i', c')"
    and "ExternalRules_sound env (dns_ExternalRules c)"
  shows "ExternalRules_sound env (dns_ExternalRules c') \<and>
    dom (dns_ExternalRules c) \<subseteq> dom (dns_ExternalRules c')"
  using assms
proof (induction ps arbitrary: fr i c)
  case Nil
  then show ?case by simp
next
  case (Cons p ps)
  from Cons.prems(1) obtain c1 e fr1 i1 where
    l: "loadExternalRules env (compressPattern p) c = Some (c1, e)" and
    r: "Build_range_fake_rules env ps fr1 i1 c1 = Some (fr', i', c')"
    by (auto simp: Let_def split: option.splits if_splits)
  from loadExternalRules_sound [OF l Cons.prems(2)] Cons.IH [OF r] show ?case by blast
qed

lemma Build_range_fake_rules_stores:
  assumes "Build_range_fake_rules env ps fr i c = Some (fr', i', c')"
    and "ExternalRules_sound env (dns_ExternalRules c)"
    and "p \<in> set ps"
    and "compressPattern p = CHR ''e'' # arg"
    and "strings_Split arg CHR '':'' = [filename, country]"
    and "loadGeositeWithAttr env filename country = Inr domains"
  shows "arg \<in> dom (dns_ExternalRules c')"
  using assms(1,2,3)
proof (induction ps arbitrary: fr i c)
  case Nil
  then show ?case by simp
next
  case (Cons q ps)
  from Cons.prems(1) obtain c1 e fr1 i1 where
    l: "loadExternalRules env (compressPattern q) c = Some (c1, e)" and
    r: "Build_range_fake_rules env ps fr1 i1 c1 = Some (fr', i', c')"
    by (auto simp: Let_def split: option.splits if_splits)
  from loadExternalRules_sound [OF l Cons.prems(2)]
  have s1: "ExternalRules_sound env (dns_ExternalRules c1)" by simp
  show ?case
  proof (cases "p = q")
    case True
    with l loadExternalRules_resolved [OF assms(5,6), of c] assms(4)
    have "arg \<in> dom (dns_ExternalRules c1)" by auto
    with Build_range_fake_rules_sound [OF r s1] show ?thesis by blast
  next
    case False
    with Cons.prems(3) have "p \<in> set ps" by simp
    from Cons.IH [OF r s1 this] show ?thesis .
  qed
qed

lemma Build_hosts_sound:
  assumes "Build_hosts env c config = Some (Inr config')"
    and "ExternalRules_sound env (dns_ExternalRules config)"
  shows "ExternalRules_sound env (dns_ExternalRules config') \<and>
    (\<forall>p arg filename country domains.
       p \<in> fst ` set (Hosts c) \<longrightarrow> compressPattern p = CHR ''e'' # arg \<longrightarrow>
       strings_Split arg CHR '':'' = [filename, country] \<longrightarrow>
       loadGeositeWithAttr env filename country = Inr domains \<longrightarrow>
       arg \<in> dom (dns_ExternalRules config'))"
proof (cases "Hosts c = []")
  case True
  with assms show ?thesis by (simp add: Build_hosts_def)
next
  case False
  with assms(1) obtain ds c1 where
    r: "Build_range_hosts env (Hosts c) [] config = Some (ds, c1)" and
    s: "Build_static_hosts env (Hosts c) (sort ds) c1 = Some (Inr config')"
    by (auto simp: Build_hosts_def split: option.splits)
  from Build_static_hosts_frame [OF s] have e: "dns_ExternalRules config' = dns_ExternalRules c1"
    by auto
  from Build_range_hosts_sound [OF r assms(2)] Build_range_hosts_stores [OF r assms(2)]
  show ?thesis unfolding e by blast
qed

lemma Build_fake_sound:
  assumes "Build_fake env c config = Some config'"
    and "ExternalRules_sound env (dns_ExternalRules config)"
  shows "ExternalRules_sound env (dns_ExternalRules config') \<and>
    dom (dns_ExternalRules config) \<subseteq> dom (dns_ExternalRules config') \<and>
    (\<forall>fake rules p arg filename country domains.
       Fake c = Some fake \<longrightarrow> FakeRules fake = Some rules \<longrightarrow> p \<in> set rules \<longrightarrow>
       compressPattern p = CHR ''e'' # arg \<longrightarrow>
       strings_Split arg CHR '':'' = [filename, country] \<longrightarrow>
       loadGeositeWithAttr env filename country = Inr domains \<longrightarrow>
       arg \<in> dom (dns_ExternalRules config'))"
proof (cases "Fake c")
  case None
  with assms show ?thesis by (simp add: Build_fake_None)
next
  case (Some fake)
  show ?thesis
  proof (cases "FakeRules fake")
    case None
    with Some assms show ?thesis by (auto simp: Build_fake_def)
  next
    case rules: (Some rules)
    let ?config = "config\<lparr>dns_Fake := Some \<lparr>dns_FakeNet =
                     (if FakeNet fake = [] then ''224.0.0.0/8'' else FakeNet fake),
                   dns_FakeRules = []\<rparr>\<rparr>"
    from assms(1) Some rules obtain fr i c1 where
      r: "Build_range_fake_rules env rules (replicate (length rules) []) 0 ?config = Some (fr, i, c1)"
      and e: "dns_ExternalRules config' = dns_ExternalRules c1"
      by (auto simp: Build_fake_def Let_def split: option.splits if_splits)
    from assms(2) have s: "ExternalRules_sound env (dns_ExternalRules ?config)" by simp
    have st: "\<forall>p arg filename country domains.
        p \<in> set rules \<longrightarrow> compressPattern p = CHR ''e'' # arg \<longrightarrow>
        strings_Split arg CHR '':'' = [filename, country] \<longrightarrow>
        loadGeositeWithAttr env filename country = Inr domains \<longrightarrow>
        arg \<in> dom (dns_ExternalRules c1)"
      using Build_range_fake_rules_stores [OF r s] by blast
    from Build_range_fake_rules_sound [OF r s]
    have "ExternalRules_sound env (dns_ExternalRules c1)"
      "dom (dns_ExternalRules config) \<subseteq> dom (dns_ExternalRules c1)"
      by simp_all
    with st show ?thesis unfolding e using Some rules by simp
  qed
qed

text \<open>
  Claim C7. Whenever a pattern of the \<open>Hosts\<close> map or of the fake rules is an
  external-list reference that resolves, a successful \<open>Build\<close> holds its expansion in
  the external-rule index under the key that follows the \<open>e\<close> marker in the compressed
  pattern, and the entry is the compressed form of the loader's output in the loader's
  order.
\<close>

theorem Build_ExternalRules_key:
  assumes "Build env c = Some (Some cfg, None)"
    and "p \<in> fst ` set (Hosts c) \<or>
         (\<exists>fake rules. Fake c = Some fake \<and> FakeRules fake = Some rules \<and> p \<in> set rules)"
    and "compressPattern p = CHR ''e'' # arg"
    and "strings_Split arg CHR '':'' = [filename, country]"
    and "loadGeositeWithAttr env filename country = Inr domains"
  shows "dns_ExternalRules cfg arg = Some (map (\<lambda>d. typeMapper (Type d) @ Value d) domains)"
proof -
  from assms(1) obtain c1 c2 c3 where
    c1: "Build_client_ip c \<lparr>dns_Tag = Tag c, dns_ClientIp = [], dns_NameServer = [],
                    dns_HostRules = [], dns_StaticHosts = [],
                    dns_ExternalRules = Map.empty, dns_Fake = None\<rparr> = Inr c1" and
    c2: "Build_servers env (Servers c) c1 = Some (Inr c2)" and
    c3: "Build_hosts env c c2 = Some (Inr c3)" and
    cfg: "Build_fake env c c3 = Some cfg"
    unfolding Build_success by blast
  from Build_client_ip_frame [OF c1] Build_servers_frame [OF c2]
  have "dns_ExternalRules c2 = Map.empty" by auto
  then have s2: "ExternalRules_sound env (dns_ExternalRules c2)"
    by (simp add: ExternalRules_sound_empty)
  from Build_hosts_sound [OF c3 s2]
  have s3: "ExternalRules_sound env (dns_ExternalRules c3)"
    and h: "p \<in> fst ` set (Hosts c) \<Longrightarrow> arg \<in> dom (dns_ExternalRules c3)"
    using assms(3,4,5) by blast+
  from Build_fake_sound [OF cfg s3]
  have s: "ExternalRules_sound env (dns_ExternalRules cfg)"
    and mono: "dom (dns_ExternalRules c3) \<subseteq> dom (dns_ExternalRules cfg)"
    and f: "\<And>fake rules. Fake c = Some fake \<Longrightarrow> FakeRules fake = Some rules \<Longrightarrow>
         p \<in> set rules \<Longrightarrow> arg \<in> dom (dns_ExternalRules cfg)"
    using assms(3,4,5) by blast+
  from assms(2) h mono f have "arg \<in> dom (dns_ExternalRules cfg)" by blast
  with s show ?thesis using assms(4,5) by (rule ExternalRules_sound_lookup)
qed

theorem Build_ExternalRules_key_witness:
  "\<exists>cfg. Build example_collaborators example_external = Some (Some cfg, None) \<and>
     compressPattern ''geosite:CN'' = CHR ''e'' # ''geosite.dat:CN'' \<and>
     dns_ExternalRules cfg ''geosite.dat:CN'' = Some [''dcn'', ''fqq.com'']"
proof -
  have "\<exists>cfg. Build example_collaborators example_external = Some (Some cfg, None)"
    by (simp add: Build_eval example_external_def)
  then obtain cfg where b: "Build example_collaborators example_external = Some (Some cfg, None)"
    by blast
  have p: "''geosite:CN'' \<in> fst ` set (Hosts example_external) \<or>
         (\<exists>fake rules. Fake example_external = Some fake \<and> FakeRules fake = Some rules \<and>
            ''geosite:CN'' \<in> set rules)"
    by (simp add: example_external_def)
  have ok: "compressPattern ''geosite:CN'' = CHR ''e'' # ''geosite.dat:CN''"
    "strings_Split ''geosite.dat:CN'' CHR '':'' = [''geosite.dat'', ''CN'']"
    "loadGeositeWithAttr example_collaborators ''geosite.dat'' ''CN'' =
       Inr [\<lparr>Type = Domain_Domain, Value = ''cn''\<rparr>, \<lparr>Type = Domain_Full, Value = ''qq.com''\<rparr>]"
    by (simp_all add: compressPattern_def prefixMapper_def example_collaborators_def)
  from Build_ExternalRules_key [OF b p ok] b ok(1) show ?thesis by simp
qed

end
